theory Spec2Isabelle
  imports Complex_Main "HOL-Library.Multiset" "HOL-Library.Log_Nat"
begin

section \<open>Chihuahua Toy Dash: the maze\<close>

text \<open>
  The game of \<^verbatim>\<open>src/main.js\<close>: a player and pursuers move over a fixed tile maze, the
  player collects toys under a countdown. Numbers of the source are JavaScript numbers.
  The player starts on integer pixels and moves by 3.0 per frame, so all its coordinates
  are integers (exact in doubles) and are modelled as \<open>int\<close>; a pursuer moves by 1.2 per
  frame and its coordinates are modelled as \<open>rat\<close>, with exact additions (their rounding
  is not modelled). The product \<open>Math.random() * candidates.length\<close>, whose floor is an
  array index, is rounded as the double product is. \<open>Math.floor(a / TILE_SIZE)\<close> on an
  integer is \<open>a div 64\<close>, \<open>a % TILE_SIZE === 0\<close> is \<open>a mod 64 = 0\<close>.
\<close>

definition TILE_SIZE :: int where
  "TILE_SIZE = 64"

definition ROWS :: int where
  "ROWS = 13"

definition COLS :: int where
  "COLS = 15"

definition MAZE :: "string list" where
  "MAZE =
    [''111111111111111'',
     ''100000000000001'',
     ''101111011111101'',
     ''101000010000101'',
     ''101011111110101'',
     ''101010000010101'',
     ''101010111010101'',
     ''101010100010101'',
     ''101010101010101'',
     ''101000001000101'',
     ''101111011111101'',
     ''100000010000001'',
     ''111111111111111'']"

datatype error = TypeError

text \<open>\<open>xs[i]\<close> of JavaScript on an array or a string: \<open>undefined\<close> (here \<open>None\<close>) out of range.\<close>

definition at_index :: "'a list \<Rightarrow> int \<Rightarrow> 'a option" where
  "at_index xs i = (if 0 \<le> i \<and> i < int (length xs) then Some (xs ! nat i) else None)"

text \<open>
  \<open>isWall\<close> with the failure of \<open>MAZE[row][col]\<close> written out: indexing \<open>undefined\<close> throws a
  TypeError, and \<open>undefined === '1'\<close> is false.
\<close>

definition isWall_checked :: "int \<Rightarrow> int \<Rightarrow> error + bool" where
  "isWall_checked r c =
    (if r < 0 \<or> r \<ge> ROWS \<or> c < 0 \<or> c \<ge> COLS then Inr True
     else case at_index MAZE r of
            None \<Rightarrow> Inl TypeError
          | Some line \<Rightarrow> Inr (at_index line c = Some (CHR ''1'')))"

definition isWall :: "int \<Rightarrow> int \<Rightarrow> bool" where
  "isWall r c =
    (if r < 0 \<or> r \<ge> ROWS \<or> c < 0 \<or> c \<ge> COLS then True
     else MAZE ! nat r ! nat c = CHR ''1'')"

section \<open>The player\<close>

text \<open>A direction object \<open>{x, y}\<close>; its components are named \<open>dx\<close>, \<open>dy\<close> here.\<close>

record vec =
  dx :: int
  dy :: int

text \<open>The fields \<open>x\<close>, \<open>y\<close>, \<open>direction\<close> shared by \<open>Player\<close> and \<open>Enemy\<close>.\<close>

record 'n entity =
  x :: 'n
  y :: 'n
  direction :: vec

record player = "int entity" +
  nextDirection :: vec

text \<open>\<open>this.speed\<close> and \<open>this.size\<close> are set by the constructors and never assigned again.\<close>

definition Player_speed :: int where
  "Player_speed = 3"

definition sprite_size :: int where
  "sprite_size = TILE_SIZE"

definition Player_new :: "int \<Rightarrow> int \<Rightarrow> player" where
  "Player_new px py =
     \<lparr>x = px, y = py, direction = \<lparr>dx = 0, dy = 0\<rparr>, nextDirection = \<lparr>dx = 0, dy = 0\<rparr>\<rparr>"

text \<open>\<open>Math.round(a / TILE_SIZE) * TILE_SIZE\<close> on an integer \<open>a\<close>; \<open>Math.round\<close> rounds a half up.\<close>

definition snap_to_tile :: "int \<Rightarrow> int" where
  "snap_to_tile a = ((2 * a + TILE_SIZE) div (2 * TILE_SIZE)) * TILE_SIZE"

definition tryChangeDirection :: "player \<Rightarrow> player" where
  "tryChangeDirection p =
    (if x p mod TILE_SIZE = 0 \<and> y p mod TILE_SIZE = 0 then
       let currentRow = y p div TILE_SIZE;
           currentCol = x p div TILE_SIZE;
           nextCol = currentCol + dx (nextDirection p);
           nextRow = currentRow + dy (nextDirection p)
       in if \<not> isWall nextRow nextCol then p\<lparr>direction := nextDirection p\<rparr> else p
     else p)"

text \<open>
  The two collision blocks of \<open>Player.update\<close>. Each takes the object and the tentative
  coordinate (\<open>newX\<close>, \<open>newY\<close>) and returns both, as the block leaves them.
\<close>

definition Player_horizontal :: "player \<times> int \<Rightarrow> player \<times> int" where
  "Player_horizontal s =
    (case s of (p, newX) \<Rightarrow>
      if dx (direction p) \<noteq> 0 then
        let c = (if dx (direction p) > 0 then (newX + sprite_size - 1) div TILE_SIZE
                 else newX div TILE_SIZE);
            rowTop = y p div TILE_SIZE;
            rowBottom = (y p + sprite_size - 1) div TILE_SIZE
        in if isWall rowTop c \<or> isWall rowBottom c
           then (p\<lparr>x := snap_to_tile (x p), direction := (direction p)\<lparr>dx := 0\<rparr>\<rparr>, x p)
           else (p, newX)
      else (p, newX))"

definition Player_vertical :: "player \<times> int \<Rightarrow> player \<times> int" where
  "Player_vertical s =
    (case s of (p, newY) \<Rightarrow>
      if dy (direction p) \<noteq> 0 then
        let r = (if dy (direction p) > 0 then (newY + sprite_size - 1) div TILE_SIZE
                 else newY div TILE_SIZE);
            colLeft = x p div TILE_SIZE;
            colRight = (x p + sprite_size - 1) div TILE_SIZE
        in if isWall r colLeft \<or> isWall r colRight
           then (p\<lparr>y := snap_to_tile (y p), direction := (direction p)\<lparr>dy := 0\<rparr>\<rparr>, y p)
           else (p, newY)
      else (p, newY))"

text \<open>\<open>Player.update\<close> after its first statement \<open>this.tryChangeDirection()\<close>.\<close>

definition Player_move :: "player \<Rightarrow> player" where
  "Player_move p1 =
    (let newX = x p1 + dx (direction p1) * Player_speed;
         newY = y p1 + dy (direction p1) * Player_speed;
         (p2, newX) = Player_horizontal (p1, newX);
         (p3, newY) = Player_vertical (p2, newY)
     in p3\<lparr>x := newX, y := newY\<rparr>)"

definition Player_update :: "player \<Rightarrow> player" where
  "Player_update p0 = Player_move (tryChangeDirection p0)"

section \<open>The pursuer\<close>

record enemy = "rat entity" +
  spawnTimestamp :: int

definition Enemy_speed :: rat where
  "Enemy_speed = 6 / 5"

definition startDelay :: int where
  "startDelay = 3000"

text \<open>The constructor; \<open>now\<close> is what \<open>Date.now()\<close> returns.\<close>

definition Enemy_new :: "int \<Rightarrow> rat \<Rightarrow> rat \<Rightarrow> enemy" where
  "Enemy_new now px py =
     \<lparr>x = px, y = py, direction = \<lparr>dx = 0, dy = 0\<rparr>, spawnTimestamp = now\<rparr>"

text \<open>\<open>a % b\<close> of JavaScript for \<open>b \<noteq> 0\<close>: the remainder of the division truncated towards zero.\<close>

definition js_rem :: "rat \<Rightarrow> rat \<Rightarrow> rat" where
  "js_rem a b = a - b * of_int (if a / b < 0 then \<lceil>a / b\<rceil> else \<lfloor>a / b\<rfloor>)"

subsection \<open>Doubles\<close>

text \<open>
  A number of JavaScript is an IEEE 754 double. The result of an arithmetic operation is
  the double nearest to the exact result, a tie going to the double with the even
  significand; \<open>round_double\<close> is this rounding, for results of magnitude less than
  \<open>2 ^ 1024\<close> (no overflow). \<open>binade v\<close> is the integer \<open>e\<close> with \<open>2 ^ e \<le> v < 2 ^ (e + 1)\<close>, for
  \<open>v > 0\<close>; a double has 53 significant bits, and the exponent \<open>e\<close> is at least \<open>- 1022\<close>.
\<close>

definition binade :: "rat \<Rightarrow> int" where
  "binade v =
    (let (p, q) = quotient_of v;
         e = bitlen p - bitlen q
     in if v < 2 powi e then e - 1 else e)"

definition round_half_even :: "rat \<Rightarrow> int" where
  "round_half_even q =
    (let f = \<lfloor>q\<rfloor>;
         r = q - of_int f
     in if r < 1 / 2 then f
        else if r > 1 / 2 then f + 1
        else if even f then f else f + 1)"

definition nearest_double :: "rat \<Rightarrow> rat" where
  "nearest_double v =
    (let e = max (binade v) (- 1022);
         u = 2 powi (e - 52)
     in of_int (round_half_even (v / u)) * u)"

definition round_double :: "rat \<Rightarrow> rat" where
  "round_double v = (if v < 0 then - nearest_double (- v) else nearest_double v)"

subsection \<open>Choosing a direction\<close>

definition tile_of :: "rat \<Rightarrow> int" where
  "tile_of a = \<lfloor>a / of_int TILE_SIZE\<rfloor>"

definition dirs :: "vec list" where
  "dirs = [\<lparr>dx = 1, dy = 0\<rparr>, \<lparr>dx = - 1, dy = 0\<rparr>, \<lparr>dx = 0, dy = 1\<rparr>, \<lparr>dx = 0, dy = - 1\<rparr>]"

text \<open>An element \<open>{ dir, reverse }\<close> of the array \<open>possible\<close>.\<close>

record candidate =
  dir :: vec
  reverse :: bool

definition possible :: "enemy \<Rightarrow> candidate list" where
  "possible e =
    (let r = tile_of (y e); c = tile_of (x e)
     in map (\<lambda>d. \<lparr>dir = d,
                   reverse = (dx (direction e) = - dx d \<and> dy (direction e) = - dy d)\<rparr>)
          (filter (\<lambda>d. \<not> isWall (r + dy d) (c + dx d)) dirs))"

definition candidates :: "enemy \<Rightarrow> candidate list" where
  "candidates e =
    (let cs = filter (\<lambda>p. \<not> reverse p) (possible e)
     in if length cs = 0 then possible e else cs)"

text \<open>
  \<open>rnd\<close> is what \<open>Math.random()\<close> returns, a double of \<open>[0, 1)\<close>; its product with the length
  is a double product. Reading \<open>choice.dir\<close> of an \<open>undefined\<close> choice throws a TypeError.
\<close>

definition chooseDirection :: "rat \<Rightarrow> enemy \<Rightarrow> error + enemy" where
  "chooseDirection rnd e =
    (if js_rem (x e) (of_int TILE_SIZE) \<noteq> 0 \<or> js_rem (y e) (of_int TILE_SIZE) \<noteq> 0 then Inr e
     else case at_index (candidates e)
                 \<lfloor>round_double (rnd * of_nat (length (candidates e)))\<rfloor> of
            None \<Rightarrow> Inl TypeError
          | Some choice \<Rightarrow> Inr (e\<lparr>direction := dir choice\<rparr>))"

definition Enemy_horizontal :: "enemy \<times> rat \<Rightarrow> enemy \<times> rat" where
  "Enemy_horizontal s =
    (case s of (e, newX) \<Rightarrow>
      if dx (direction e) \<noteq> 0 then
        let c = (if dx (direction e) > 0 then tile_of (newX + of_int sprite_size - 1)
                 else tile_of newX);
            rowTop = tile_of (y e);
            rowBottom = tile_of (y e + of_int sprite_size - 1)
        in if isWall rowTop c \<or> isWall rowBottom c
           then (e\<lparr>direction := \<lparr>dx = 0, dy = 0\<rparr>\<rparr>, x e)
           else (e, newX)
      else (e, newX))"

definition Enemy_vertical :: "enemy \<times> rat \<Rightarrow> enemy \<times> rat" where
  "Enemy_vertical s =
    (case s of (e, newY) \<Rightarrow>
      if dy (direction e) \<noteq> 0 then
        let r = (if dy (direction e) > 0 then tile_of (newY + of_int sprite_size - 1)
                 else tile_of newY);
            colLeft = tile_of (x e);
            colRight = tile_of (x e + of_int sprite_size - 1)
        in if isWall r colLeft \<or> isWall r colRight
           then (e\<lparr>direction := \<lparr>dx = 0, dy = 0\<rparr>\<rparr>, y e)
           else (e, newY)
      else (e, newY))"

text \<open>\<open>now\<close> is what \<open>Date.now()\<close> returns in this call, \<open>rnd\<close> what \<open>Math.random()\<close> would.\<close>

definition Enemy_update :: "int \<Rightarrow> rat \<Rightarrow> enemy \<Rightarrow> error + enemy" where
  "Enemy_update now rnd e0 =
    (if now - spawnTimestamp e0 < startDelay then Inr e0
     else case chooseDirection rnd e0 of
            Inl err \<Rightarrow> Inl err
          | Inr e1 \<Rightarrow>
              let newX = x e1 + of_int (dx (direction e1)) * Enemy_speed;
                  newY = y e1 + of_int (dy (direction e1)) * Enemy_speed;
                  (e2, newX) = Enemy_horizontal (e1, newX);
                  (e3, newY) = Enemy_vertical (e2, newY)
              in Inr (e3\<lparr>x := newX, y := newY\<rparr>))"

section \<open>Toys and the session\<close>

record toy =
  row :: int
  col :: int
  collected :: bool
  type :: string

definition Toy_new :: "int \<Rightarrow> int \<Rightarrow> string \<Rightarrow> toy" where
  "Toy_new r c t = \<lparr>row = r, col = c, collected = False, type = t\<rparr>"

text \<open>
  The fields of \<open>Game\<close> that the game logic reads. \<open>endGameCalls\<close> is not a field of the
  source: it records the argument of every call of \<open>endGame\<close>, in order (each call shows
  the overlay with the text for a win or a loss).
\<close>

record game =
  player :: player
  enemies :: "enemy list"
  toys :: "toy list"
  score :: int
  timeLeft :: int
  running :: bool
  endGameCalls :: "bool list"

definition endGame :: "bool \<Rightarrow> game \<Rightarrow> game" where
  "endGame win g = g\<lparr>running := False, endGameCalls := endGameCalls g @ [win]\<rparr>"

definition checkCollision :: "player \<Rightarrow> enemy \<Rightarrow> bool" where
  "checkCollision a b =
    (let ax1 = of_int (x a);
         ay1 = of_int (y a);
         ax2 = of_int (x a + sprite_size);
         ay2 = of_int (y a + sprite_size);
         bx1 = x b;
         by1 = y b;
         bx2 = x b + of_int sprite_size;
         by2 = y b + of_int sprite_size
     in ax1 < bx2 \<and> ax2 > bx1 \<and> ay1 < by2 \<and> ay2 > by1)"

text \<open>The own properties of the object \<open>dirs\<close> of the keydown handler.\<close>

definition arrow_dirs :: "string \<Rightarrow> vec option" where
  "arrow_dirs key =
    (if key = ''ArrowUp'' then Some \<lparr>dx = 0, dy = - 1\<rparr>
     else if key = ''ArrowDown'' then Some \<lparr>dx = 0, dy = 1\<rparr>
     else if key = ''ArrowLeft'' then Some \<lparr>dx = - 1, dy = 0\<rparr>
     else if key = ''ArrowRight'' then Some \<lparr>dx = 1, dy = 0\<rparr>
     else None)"

text \<open>
  \<open>dirs\<close> is an object literal, so \<open>dirs[key]\<close> also finds the properties that it inherits
  from \<open>Object.prototype\<close>. Their values are functions or, for \<open>__proto__\<close>, the prototype
  object: truthy, and not directions.
\<close>

definition Object_prototype_names :: "string list" where
  "Object_prototype_names =
    [''constructor'', ''hasOwnProperty'', ''isPrototypeOf'', ''propertyIsEnumerable'',
     ''toLocaleString'', ''toString'', ''valueOf'', ''__defineGetter__'', ''__defineSetter__'',
     ''__lookupGetter__'', ''__lookupSetter__'', ''__proto__'']"

datatype property = Own vec | Inherited | Undefined

definition dirs_lookup :: "string \<Rightarrow> property" where
  "dirs_lookup key =
    (case arrow_dirs key of
       Some d \<Rightarrow> Own d
     | None \<Rightarrow> if key \<in> set Object_prototype_names then Inherited else Undefined)"

text \<open>
  The handler that \<open>setupControls\<close> installs as \<open>window.onkeydown\<close>, called with \<open>e.key\<close>.
  For an inherited property it stores the inherited value in \<open>nextDirection\<close>, which the
  record of the player cannot hold: the outcome is \<open>StoredNonVector g\<close>, where \<open>g\<close> gives
  the other fields of the game, which the handler does not change.
\<close>

datatype keydown_outcome = Handled game | StoredNonVector game

definition onkeydown :: "string \<Rightarrow> game \<Rightarrow> keydown_outcome" where
  "onkeydown key g =
    (case dirs_lookup key of
       Own d \<Rightarrow> Handled (g\<lparr>player := (player g)\<lparr>nextDirection := d\<rparr>\<rparr>)
     | Inherited \<Rightarrow> StoredNonVector g
     | Undefined \<Rightarrow> Handled g)"

text \<open>The fields of the game after the handler, \<open>nextDirection\<close> apart in the second case.\<close>

definition state_after_key :: "keydown_outcome \<Rightarrow> game" where
  "state_after_key k = (case k of Handled g \<Rightarrow> g | StoredNonVector g \<Rightarrow> g)"

text \<open>The callback of \<open>this.toys.forEach\<close> in \<open>Game.update\<close>, on the toy at index \<open>i\<close>.\<close>

definition collectToy :: "int \<Rightarrow> int \<Rightarrow> nat \<Rightarrow> game \<Rightarrow> game" where
  "collectToy playerRow playerCol i g =
    (let t = toys g ! i
     in if \<not> collected t \<and> row t = playerRow \<and> col t = playerCol then
          let g1 = g\<lparr>toys := (toys g)[i := t\<lparr>collected := True\<rparr>], score := score g + 1\<rparr>
          in if list_all collected (toys g1) then endGame True g1 else g1
        else g)"

text \<open>
  The callback of \<open>this.enemies.forEach\<close>, on the pursuer at index \<open>i\<close>; \<open>clock i\<close> and
  \<open>ernd i\<close> are what \<open>Date.now()\<close> and \<open>Math.random()\<close> return in its update. An exception
  leaves \<open>Game.update\<close> with the state reached so far.
\<close>

definition updateEnemy :: "(nat \<Rightarrow> int) \<Rightarrow> (nat \<Rightarrow> rat) \<Rightarrow> nat \<Rightarrow> game \<Rightarrow> (error \<times> game) + game" where
  "updateEnemy clock ernd i g =
    (case Enemy_update (clock i) (ernd i) (enemies g ! i) of
       Inl err \<Rightarrow> Inl (err, g)
     | Inr e \<Rightarrow>
         let g1 = g\<lparr>enemies := (enemies g)[i := e]\<rparr>
         in Inr (if checkCollision (player g1) e then endGame False g1 else g1))"

fun forEach_enemy ::
  "(nat \<Rightarrow> int) \<Rightarrow> (nat \<Rightarrow> rat) \<Rightarrow> nat list \<Rightarrow> game \<Rightarrow> (error \<times> game) + game" where
  "forEach_enemy clock ernd [] g = Inr g"
| "forEach_enemy clock ernd (i # rest) g =
     (case updateEnemy clock ernd i g of
        Inl err \<Rightarrow> Inl err
      | Inr g1 \<Rightarrow> forEach_enemy clock ernd rest g1)"

text \<open>\<open>Game.update\<close> up to the end of the loop over the toys.\<close>

definition Game_update_toys :: "game \<Rightarrow> game" where
  "Game_update_toys g =
    (let g1 = g\<lparr>player := Player_update (player g)\<rparr>;
         playerRow = y (player g1) div TILE_SIZE;
         playerCol = x (player g1) div TILE_SIZE
     in fold (collectToy playerRow playerCol) [0..<length (toys g1)] g1)"

definition Game_update :: "(nat \<Rightarrow> int) \<Rightarrow> (nat \<Rightarrow> rat) \<Rightarrow> game \<Rightarrow> (error \<times> game) + game" where
  "Game_update clock ernd g =
    (let g2 = Game_update_toys g
     in forEach_enemy clock ernd [0..<length (enemies g2)] g2)"

text \<open>\<open>Game.loop\<close>, without the drawing and the request for the next frame.\<close>

definition loop :: "(nat \<Rightarrow> int) \<Rightarrow> (nat \<Rightarrow> rat) \<Rightarrow> game \<Rightarrow> (error \<times> game) + game" where
  "loop clock ernd g = (if \<not> running g then Inr g else Game_update clock ernd g)"

text \<open>The state a call leaves behind, whether it returned or threw.\<close>

definition state_of :: "(error \<times> game) + game \<Rightarrow> game" where
  "state_of res = (case res of Inl (err, g) \<Rightarrow> g | Inr g \<Rightarrow> g)"

text \<open>The callback that \<open>Game.init\<close> passes to \<open>setInterval\<close>.\<close>

definition timerTick :: "game \<Rightarrow> game" where
  "timerTick g =
    (if \<not> running g then g
     else let g1 = g\<lparr>timeLeft := timeLeft g - 1\<rparr>
          in if timeLeft g1 \<le> 0 then endGame False g1 else g1)"

subsection \<open>\<open>Game.init\<close>\<close>

definition emptyCells :: "(int \<times> int) list" where
  "emptyCells =
     concat (map (\<lambda>r. map (\<lambda>c. (r, c))
                         (filter (\<lambda>c. \<not> isWall r c \<and> \<not> (r = 1 \<and> c = 1)) [0..COLS - 1]))
                 [0..ROWS - 1])"

text \<open>
  The shuffle loop \<open>for (i = length - 1; i > 0; i--)\<close>, entered at \<open>i\<close>; \<open>rnd i\<close> is what
  \<open>Math.random()\<close> returns in iteration \<open>i\<close>, a number of \<open>[0, 1)\<close>, so that \<open>j \<le> i\<close>.
\<close>

fun shuffle :: "(nat \<Rightarrow> rat) \<Rightarrow> nat \<Rightarrow> 'a list \<Rightarrow> 'a list" where
  "shuffle rnd 0 cells = cells"
| "shuffle rnd (Suc k) cells =
     (let i = Suc k;
          j = nat \<lfloor>rnd i * of_nat (i + 1)\<rfloor>
      in shuffle rnd k (cells[i := cells ! j, j := cells ! i]))"

definition toyTypes :: "string list" where
  "toyTypes = [''teddy'', ''ball'']"

definition make_toys :: "(int \<times> int) list \<Rightarrow> toy list" where
  "make_toys cells =
    (let toyCount = min 10 (length cells)
     in map (\<lambda>i. Toy_new (fst (cells ! i)) (snd (cells ! i)) (toyTypes ! (i mod length toyTypes)))
          [0..<toyCount])"

text \<open>
  \<open>Game.init\<close> up to \<open>this.running = true\<close>: \<open>now\<close> is \<open>Date.now()\<close> when the pursuer is
  created, \<open>rnd\<close> feeds the shuffle.
\<close>

definition Game_init_state :: "int \<Rightarrow> (nat \<Rightarrow> rat) \<Rightarrow> game" where
  "Game_init_state now rnd =
     \<lparr>player = Player_new (1 * TILE_SIZE) (1 * TILE_SIZE),
      enemies = [Enemy_new now (of_int (1 * TILE_SIZE)) (of_int (11 * TILE_SIZE))],
      toys = make_toys (shuffle rnd (length emptyCells - 1) emptyCells),
      score = 0,
      timeLeft = 60,
      running = True,
      endGameCalls = []\<rparr>"

text \<open>
  \<open>Game.init\<close>: its last statement \<open>this.loop(0)\<close> runs the first frame at once, with
  \<open>clock\<close> and \<open>ernd\<close> for the pursuers.
\<close>

definition Game_init :: "int \<Rightarrow> (nat \<Rightarrow> rat) \<Rightarrow> (nat \<Rightarrow> int) \<Rightarrow> (nat \<Rightarrow> rat) \<Rightarrow> (error \<times> game) + game" where
  "Game_init now rnd clock ernd = loop clock ernd (Game_init_state now rnd)"

section \<open>Notions used to state the properties\<close>

subsection \<open>The player's reachable states\<close>

text \<open>
  The player of a session: created by \<open>Game.init\<close> on cell (1,1), then changed only by
  \<open>Player.update\<close> (once per frame) and by the keydown handler, which queues the direction
  of an arrow key.
\<close>

inductive reachable_player :: "player \<Rightarrow> bool" where
  start: "reachable_player (Player_new (1 * TILE_SIZE) (1 * TILE_SIZE))"
| frame: "reachable_player p \<Longrightarrow> reachable_player (Player_update p)"
| key: "reachable_player p \<Longrightarrow> arrow_dirs k = Some d \<Longrightarrow> reachable_player (p\<lparr>nextDirection := d\<rparr>)"

text \<open>
  The tile of row \<open>r\<close> and column \<open>c\<close> overlaps the player's bounding box, the square of
  side \<open>size\<close> whose top left corner is \<open>(x, y)\<close>.
\<close>

definition overlaps_tile :: "player \<Rightarrow> int \<Rightarrow> int \<Rightarrow> bool" where
  "overlaps_tile p r c \<longleftrightarrow>
     c * TILE_SIZE < x p + sprite_size \<and> x p < (c + 1) * TILE_SIZE \<and>
     r * TILE_SIZE < y p + sprite_size \<and> y p < (r + 1) * TILE_SIZE"

text \<open>A direction that is one of the four unit vectors, or no movement.\<close>

definition unit_or_zero :: "vec \<Rightarrow> bool" where
  "unit_or_zero d \<longleftrightarrow> d \<in> set dirs \<or> d = \<lparr>dx = 0, dy = 0\<rparr>"

text \<open>The four corner tiles of the player's bounding box are free.\<close>

definition box_free :: "player \<Rightarrow> bool" where
  "box_free p \<longleftrightarrow>
     \<not> isWall (y p div 64) (x p div 64) \<and> \<not> isWall (y p div 64) ((x p + 63) div 64) \<and>
     \<not> isWall ((y p + 63) div 64) (x p div 64) \<and> \<not> isWall ((y p + 63) div 64) ((x p + 63) div 64)"

text \<open>
  The invariant of the player: it moves along one axis at a time, and while it moves
  along one axis it is aligned on the other.
\<close>

definition player_inv :: "player \<Rightarrow> bool" where
  "player_inv p \<longleftrightarrow>
     unit_or_zero (direction p) \<and> unit_or_zero (nextDirection p) \<and> box_free p \<and>
     (dx (direction p) \<noteq> 0 \<longrightarrow> y p mod 64 = 0) \<and> (dy (direction p) \<noteq> 0 \<longrightarrow> x p mod 64 = 0)"

text \<open>
  The moments of one call of \<open>Player.update\<close> at which the direction can change: in
  \<open>tryChangeDirection\<close>, in the horizontal collision block and in the vertical one. For
  the object \<open>p1\<close> that \<open>tryChangeDirection\<close> leaves, \<open>Player_after_horizontal p1\<close> is the
  object after the horizontal block and \<open>Player_after_vertical p1\<close> the object after the
  vertical block; the two assignments that end \<open>update\<close> change the position only. An
  object is on the grid when both its coordinates are multiples of \<open>TILE_SIZE\<close>.
\<close>

definition on_grid :: "player \<Rightarrow> bool" where
  "on_grid p \<longleftrightarrow> x p mod TILE_SIZE = 0 \<and> y p mod TILE_SIZE = 0"

definition Player_after_horizontal :: "player \<Rightarrow> player" where
  "Player_after_horizontal p1 =
     fst (Player_horizontal (p1, x p1 + dx (direction p1) * Player_speed))"

definition Player_after_vertical :: "player \<Rightarrow> player" where
  "Player_after_vertical p1 =
     fst (Player_vertical (Player_after_horizontal p1, y p1 + dy (direction p1) * Player_speed))"

subsection \<open>The pursuer's choices\<close>

text \<open>
  For a pursuer \<open>e\<close> and a direction \<open>d\<close>: the neighbour cell in direction \<open>d\<close> is not a
  wall; \<open>d\<close> is the reversal of the current direction; the position is tile-aligned (the
  test of \<open>chooseDirection\<close>); the open directions that are not the reversal, in the
  order of \<open>dirs\<close>.
\<close>

definition open_dir :: "enemy \<Rightarrow> vec \<Rightarrow> bool" where
  "open_dir e d \<longleftrightarrow> \<not> isWall (tile_of (y e) + dy d) (tile_of (x e) + dx d)"

definition reversal :: "enemy \<Rightarrow> vec \<Rightarrow> bool" where
  "reversal e d \<longleftrightarrow> dx (direction e) = - dx d \<and> dy (direction e) = - dy d"

definition tile_aligned :: "enemy \<Rightarrow> bool" where
  "tile_aligned e \<longleftrightarrow>
     js_rem (x e) (of_int TILE_SIZE) = 0 \<and> js_rem (y e) (of_int TILE_SIZE) = 0"

definition non_reversing :: "enemy \<Rightarrow> vec list" where
  "non_reversing e = filter (\<lambda>d. open_dir e d \<and> \<not> reversal e d) dirs"

definition has_open_neighbour :: "int \<Rightarrow> int \<Rightarrow> bool" where
  "has_open_neighbour r c \<longleftrightarrow> (\<exists>d \<in> set dirs. \<not> isWall (r + dy d) (c + dx d))"

text \<open>
  The wall tests of the two collision blocks of \<open>Enemy.update\<close>, on the object \<open>e\<close> that
  \<open>chooseDirection\<close> leaves: the block of an axis is entered when the direction has a
  component on it, and finds a wall in front of the leading edge of the moved box.
\<close>

definition Enemy_wall_x :: "enemy \<Rightarrow> bool" where
  "Enemy_wall_x e \<longleftrightarrow>
     dx (direction e) \<noteq> 0 \<and>
     (let newX = x e + of_int (dx (direction e)) * Enemy_speed;
          c = (if dx (direction e) > 0 then tile_of (newX + of_int sprite_size - 1)
               else tile_of newX)
      in isWall (tile_of (y e)) c \<or> isWall (tile_of (y e + of_int sprite_size - 1)) c)"

definition Enemy_wall_y :: "enemy \<Rightarrow> bool" where
  "Enemy_wall_y e \<longleftrightarrow>
     dy (direction e) \<noteq> 0 \<and>
     (let newY = y e + of_int (dy (direction e)) * Enemy_speed;
          r = (if dy (direction e) > 0 then tile_of (newY + of_int sprite_size - 1)
               else tile_of newY)
      in isWall r (tile_of (x e)) \<or> isWall r (tile_of (x e + of_int sprite_size - 1)))"

text \<open>
  The pursuer of a session: created by \<open>Game.init\<close> on cell (11,1), then changed only by
  \<open>Enemy.update\<close>, once per frame, with a double of \<open>[0, 1)\<close> for \<open>Math.random()\<close>.
\<close>

inductive reachable_enemy :: "enemy \<Rightarrow> bool" where
  spawn: "reachable_enemy (Enemy_new now (of_int (1 * TILE_SIZE)) (of_int (11 * TILE_SIZE)))"
| frame: "reachable_enemy e \<Longrightarrow> 0 \<le> rnd \<Longrightarrow> rnd < 1 \<Longrightarrow> round_double rnd = rnd \<Longrightarrow>
          Enemy_update now rnd e = Inr e' \<Longrightarrow> reachable_enemy e'"

subsection \<open>The toy loop of a frame\<close>

text \<open>
  With the player on the cell of row \<open>pr\<close> and column \<open>pc\<close>: a toy that the loop picks up;
  the toy as the loop leaves it; the list of toys after the first \<open>k\<close> iterations; whether
  \<open>endGame(true)\<close> was called in them.
\<close>

definition picked_up :: "int \<Rightarrow> int \<Rightarrow> toy \<Rightarrow> bool" where
  "picked_up pr pc t \<longleftrightarrow> \<not> collected t \<and> row t = pr \<and> col t = pc"

definition collect_at :: "int \<Rightarrow> int \<Rightarrow> toy \<Rightarrow> toy" where
  "collect_at pr pc t = (if picked_up pr pc t then t\<lparr>collected := True\<rparr> else t)"

definition collected_so_far :: "int \<Rightarrow> int \<Rightarrow> nat \<Rightarrow> toy list \<Rightarrow> toy list" where
  "collected_so_far pr pc k ts = map (collect_at pr pc) (take k ts) @ drop k ts"

definition won_so_far :: "int \<Rightarrow> int \<Rightarrow> nat \<Rightarrow> toy list \<Rightarrow> bool" where
  "won_so_far pr pc k ts \<longleftrightarrow>
     (\<exists>t \<in> set (take k ts). picked_up pr pc t) \<and> list_all collected (collected_so_far pr pc k ts)"

subsection \<open>The session\<close>

text \<open>
  The states of a session: \<open>Game.init\<close> with random numbers of \<open>[0, 1)\<close>, then frames, ticks
  of the timer and key presses, in any order. A frame that throws leaves the state it
  reached. After a key that names an inherited property of \<open>dirs\<close> the state is the one
  before the key, \<open>nextDirection\<close> apart: the next \<open>Player.update\<close> reads \<open>nextDirection\<close>
  only on the grid, where it throws before it changes anything.
\<close>

inductive reachable_game :: "game \<Rightarrow> bool" where
  init: "\<forall>i. 0 \<le> rnd i \<and> rnd i < 1 \<Longrightarrow> reachable_game (state_of (Game_init now rnd clock ernd))"
| frame: "reachable_game g \<Longrightarrow> reachable_game (state_of (loop clock ernd g))"
| tick: "reachable_game g \<Longrightarrow> reachable_game (timerTick g)"
| key: "reachable_game g \<Longrightarrow> reachable_game (state_after_key (onkeydown k g))"

text \<open>
  The event of a win in the frame that starts in \<open>g\<close>: on the cell that the player's top
  left corner reaches there is a toy not yet collected, and every other toy is collected.
\<close>

definition last_toy_collected :: "game \<Rightarrow> bool" where
  "last_toy_collected g \<longleftrightarrow>
    (let p = Player_update (player g);
         playerRow = y p div TILE_SIZE;
         playerCol = x p div TILE_SIZE
     in (\<exists>t \<in> set (toys g). \<not> collected t \<and> row t = playerRow \<and> col t = playerCol) \<and>
        (\<forall>t \<in> set (toys g). collected t \<or> row t = playerRow \<and> col t = playerCol))"

text \<open>The score is the number of collected toys.\<close>

definition score_inv :: "game \<Rightarrow> bool" where
  "score_inv g \<longleftrightarrow> score g = int (length (filter collected (toys g)))"

section \<open>The maze lookup\<close>

lemma MAZE_shape: "length MAZE = 13" "list_all (\<lambda>l. length l = 15) MAZE"
  by (simp_all add: MAZE_def)

lemma MAZE_line_length: "0 \<le> r \<Longrightarrow> r < 13 \<Longrightarrow> length (MAZE ! nat r) = 15"
  using MAZE_shape by (simp add: list_all_length)

lemma isWall_checked_eq: "isWall_checked r c = Inr (isWall r c)"
  by (simp add: isWall_checked_def isWall_def at_index_def MAZE_shape(1) MAZE_line_length ROWS_def COLS_def)

text \<open>
  C6: for every integer pair outside the maze (\<open>r < 0\<close>, \<open>r \<ge> 13\<close>, \<open>c < 0\<close> or \<open>c \<ge> 15\<close>)
  \<open>isWall\<close> returns true, inside it returns true exactly when the maze cell is \<open>'1'\<close>,
  and it never throws: the lookup with the failures written out returns the same value.
\<close>

theorem isWall_bounds_and_cells: "isWall_checked r c = Inr (isWall r c) \<and>
   (r < 0 \<or> r \<ge> 13 \<or> c < 0 \<or> c \<ge> 15 \<longrightarrow> isWall r c) \<and>
   (0 \<le> r \<and> r < 13 \<and> 0 \<le> c \<and> c < 15 \<longrightarrow> (isWall r c \<longleftrightarrow> MAZE ! nat r ! nat c = CHR ''1''))"
  by (simp add: isWall_checked_eq) (simp add: isWall_def ROWS_def COLS_def)

theorem isWall_bounds_and_cells_witness:
  "isWall (- 1) 3 \<and> isWall_checked (- 1) 3 = Inr True \<and>
   isWall 2 2 \<and> MAZE ! nat 2 ! nat 2 = CHR ''1'' \<and> isWall_checked 1 1 = Inr False"
  using isWall_bounds_and_cells[of "- 1" 3] isWall_bounds_and_cells[of 2 2]
    isWall_bounds_and_cells[of 1 1]
  by (simp add: MAZE_def)

section \<open>The player stays in the corridors\<close>

lemma div64_iff: "((a::int) div 64 = q) = (64 * q \<le> a \<and> a < 64 * q + 64)"
  by linarith

lemma mod64_iff: "((a::int) mod 64 = 0) = (64 * (a div 64) = a)"
  by (metis mult_div_mod_eq add.right_neutral add_left_cancel)

lemma aligned_far_edge: "(a::int) mod 64 = 0 \<Longrightarrow> (a + 63) div 64 = a div 64"
  unfolding mod64_iff div64_iff[of "a + 63"] by linarith
lemma trail_forward: "((a::int) + 3) div 64 = a div 64 \<or> (a + 3) div 64 = (a + 63) div 64" by linarith
lemma trail_backward: "((a::int) - 3 + 63) div 64 = a div 64 \<or> (a - 3 + 63) div 64 = (a + 63) div 64" by linarith
lemma cell_cases: "c * 64 < a + 64 \<Longrightarrow> a < c * 64 + 64 \<Longrightarrow> c = a div 64 \<or> c = (a + 63) div (64::int)"
  by linarith

lemma unit_or_zero_cases:
  "unit_or_zero d \<Longrightarrow> d = \<lparr>dx = 0, dy = 0\<rparr> \<or> d = \<lparr>dx = 1, dy = 0\<rparr> \<or> d = \<lparr>dx = - 1, dy = 0\<rparr>
     \<or> d = \<lparr>dx = 0, dy = 1\<rparr> \<or> d = \<lparr>dx = 0, dy = - 1\<rparr>"
  by (auto simp: unit_or_zero_def dirs_def)

lemma inv_try: "player_inv p \<Longrightarrow> player_inv (tryChangeDirection p)"
  by (simp add: player_inv_def tryChangeDirection_def Let_def TILE_SIZE_def box_free_def)



lemmas move_defs = Player_move_def Player_horizontal_def Player_vertical_def Let_def Player_speed_def
      sprite_size_def TILE_SIZE_def

lemma step_still:
  assumes "direction p1 = \<lparr>dx = 0, dy = 0\<rparr>"
  shows "Player_move p1 = p1"
  using assms by (simp add: move_defs)

lemma step_right:
  assumes "direction p1 = \<lparr>dx = 1, dy = 0\<rparr>"
  shows "Player_move p1 =
    (if isWall (y p1 div 64) ((x p1 + 66) div 64) \<or> isWall ((y p1 + 63) div 64) ((x p1 + 66) div 64)
     then p1\<lparr>direction := \<lparr>dx = 0, dy = 0\<rparr>\<rparr>
     else p1\<lparr>x := x p1 + 3\<rparr>)"
  using assms by (simp add: move_defs add.commute)

lemma step_left:
  assumes "direction p1 = \<lparr>dx = - 1, dy = 0\<rparr>"
  shows "Player_move p1 =
    (if isWall (y p1 div 64) ((x p1 - 3) div 64) \<or> isWall ((y p1 + 63) div 64) ((x p1 - 3) div 64)
     then p1\<lparr>direction := \<lparr>dx = 0, dy = 0\<rparr>\<rparr>
     else p1\<lparr>x := x p1 - 3\<rparr>)"
  using assms by (simp add: move_defs add.commute)

lemma step_down:
  assumes "direction p1 = \<lparr>dx = 0, dy = 1\<rparr>"
  shows "Player_move p1 =
    (if isWall ((y p1 + 66) div 64) (x p1 div 64) \<or> isWall ((y p1 + 66) div 64) ((x p1 + 63) div 64)
     then p1\<lparr>direction := \<lparr>dx = 0, dy = 0\<rparr>\<rparr>
     else p1\<lparr>y := y p1 + 3\<rparr>)"
  using assms by (simp add: move_defs add.commute)

lemma step_up:
  assumes "direction p1 = \<lparr>dx = 0, dy = - 1\<rparr>"
  shows "Player_move p1 =
    (if isWall ((y p1 - 3) div 64) (x p1 div 64) \<or> isWall ((y p1 - 3) div 64) ((x p1 + 63) div 64)
     then p1\<lparr>direction := \<lparr>dx = 0, dy = 0\<rparr>\<rparr>
     else p1\<lparr>y := y p1 - 3\<rparr>)"
  using assms by (simp add: move_defs add.commute)


lemma player_inv_stop:
  "player_inv p \<Longrightarrow> player_inv (p\<lparr>direction := \<lparr>dx = 0, dy = 0\<rparr>\<rparr>)"
  by (simp add: player_inv_def box_free_def unit_or_zero_def)

lemma player_inv_shift_x:
  assumes "player_inv p" "dy (direction p) = 0" "dx (direction p) \<noteq> 0"
    and lead: "\<not> isWall (y p div 64) (a div 64)" "\<not> isWall (y p div 64) ((a + 63) div 64)"
  shows "player_inv (p\<lparr>x := a\<rparr>)"
proof -
  from assms have "(y p + 63) div 64 = y p div 64"
    by (simp add: player_inv_def aligned_far_edge)
  with assms show ?thesis
    by (simp add: player_inv_def box_free_def)
qed

lemma player_inv_shift_y:
  assumes "player_inv p" "dx (direction p) = 0" "dy (direction p) \<noteq> 0"
    and lead: "\<not> isWall (a div 64) (x p div 64)" "\<not> isWall ((a + 63) div 64) (x p div 64)"
  shows "player_inv (p\<lparr>y := a\<rparr>)"
proof -
  from assms have "(x p + 63) div 64 = x p div 64"
    by (simp add: player_inv_def aligned_far_edge)
  with assms show ?thesis
    by (simp add: player_inv_def box_free_def)
qed


lemma inv_move:
  assumes inv1: "player_inv p1"
  shows "player_inv (Player_move p1)"
proof -
  from inv1 have free: "box_free p1"
    by (simp add: player_inv_def)
  from inv1 have "unit_or_zero (direction p1)"
    by (simp add: player_inv_def)
  then consider
      (still) "direction p1 = \<lparr>dx = 0, dy = 0\<rparr>"
    | (right) "direction p1 = \<lparr>dx = 1, dy = 0\<rparr>"
    | (left) "direction p1 = \<lparr>dx = - 1, dy = 0\<rparr>"
    | (down) "direction p1 = \<lparr>dx = 0, dy = 1\<rparr>"
    | (up) "direction p1 = \<lparr>dx = 0, dy = - 1\<rparr>"
    using unit_or_zero_cases by blast
  then show ?thesis
  proof cases
    case still
    then show ?thesis
      using inv1 by (simp add: step_still)
  next
    case right
    have trail: "\<not> isWall (y p1 div 64) ((x p1 + 3) div 64)"
      using free trail_forward[of "x p1"] by (auto simp add: box_free_def)
    have "player_inv (p1\<lparr>x := x p1 + 3\<rparr>)"
      if "\<not> isWall (y p1 div 64) ((x p1 + 66) div 64)"
      by (rule player_inv_shift_x) (use inv1 right trail that in \<open>simp_all add: add.commute\<close>)
    then show ?thesis
      using inv1 by (auto simp add: step_right[OF right] player_inv_stop)
  next
    case left
    have trail: "\<not> isWall (y p1 div 64) ((x p1 - 3 + 63) div 64)"
      using free trail_backward[of "x p1"] by (auto simp add: box_free_def)
    have "player_inv (p1\<lparr>x := x p1 - 3\<rparr>)"
      if "\<not> isWall (y p1 div 64) ((x p1 - 3) div 64)"
      by (rule player_inv_shift_x) (use inv1 left trail that in \<open>simp_all add: add.commute\<close>)
    then show ?thesis
      using inv1 by (auto simp add: step_left[OF left] player_inv_stop)
  next
    case down
    have trail: "\<not> isWall ((y p1 + 3) div 64) (x p1 div 64)"
      using free trail_forward[of "y p1"] by (auto simp add: box_free_def)
    have "player_inv (p1\<lparr>y := y p1 + 3\<rparr>)"
      if "\<not> isWall ((y p1 + 66) div 64) (x p1 div 64)"
      by (rule player_inv_shift_y) (use inv1 down trail that in \<open>simp_all add: add.commute\<close>)
    then show ?thesis
      using inv1 by (auto simp add: step_down[OF down] player_inv_stop)
  next
    case up
    have trail: "\<not> isWall ((y p1 - 3 + 63) div 64) (x p1 div 64)"
      using free trail_backward[of "y p1"] by (auto simp add: box_free_def)
    have "player_inv (p1\<lparr>y := y p1 - 3\<rparr>)"
      if "\<not> isWall ((y p1 - 3) div 64) (x p1 div 64)"
      by (rule player_inv_shift_y) (use inv1 up trail that in \<open>simp_all add: add.commute\<close>)
    then show ?thesis
      using inv1 by (auto simp add: step_up[OF up] player_inv_stop)
  qed
qed


lemma isWall_1_1: "\<not> isWall 1 1"
  by (simp add: isWall_def ROWS_def COLS_def MAZE_def)

lemma player_inv_start: "player_inv (Player_new (1 * TILE_SIZE) (1 * TILE_SIZE))"
  using isWall_1_1
  by (simp add: player_inv_def Player_new_def TILE_SIZE_def unit_or_zero_def box_free_def)

lemma arrow_dirs_unit: "arrow_dirs k = Some d \<Longrightarrow> unit_or_zero d"
  by (auto simp add: arrow_dirs_def unit_or_zero_def dirs_def split: if_splits)

lemma player_inv_key: "player_inv p \<Longrightarrow> unit_or_zero d \<Longrightarrow> player_inv (p\<lparr>nextDirection := d\<rparr>)"
  by (simp add: player_inv_def box_free_def)

lemma reachable_player_inv: "reachable_player p \<Longrightarrow> player_inv p"
proof (induction rule: reachable_player.induct)
  case start
  show ?case by (rule player_inv_start)
next
  case (frame p)
  then show ?case by (simp add: Player_update_def inv_move inv_try)
next
  case (key p k d)
  then show ?case by (simp add: player_inv_key arrow_dirs_unit)
qed

lemma box_free_overlap:
  assumes "box_free p" "overlaps_tile p r c"
  shows "\<not> isWall r c"
proof -
  from assms(2) have "c = x p div 64 \<or> c = (x p + 63) div 64"
    by (intro cell_cases) (simp_all add: overlaps_tile_def TILE_SIZE_def sprite_size_def algebra_simps)
  moreover from assms(2) have "r = y p div 64 \<or> r = (y p + 63) div 64"
    by (intro cell_cases) (simp_all add: overlaps_tile_def TILE_SIZE_def sprite_size_def algebra_simps)
  ultimately show ?thesis
    using assms(1) by (auto simp add: box_free_def)
qed

text \<open>
  C1: in every reachable state of the player, no tile that its 64x64 bounding box
  overlaps is a wall.
\<close>

theorem player_confined:
  "reachable_player p \<Longrightarrow> overlaps_tile p r c \<Longrightarrow> \<not> isWall r c"
  using reachable_player_inv box_free_overlap by (auto simp add: player_inv_def)

theorem player_confined_witness:
  "reachable_player (Player_update ((Player_new (1 * TILE_SIZE) (1 * TILE_SIZE))\<lparr>nextDirection := \<lparr>dx = 1, dy = 0\<rparr>\<rparr>))
   \<and> overlaps_tile (Player_update ((Player_new (1 * TILE_SIZE) (1 * TILE_SIZE))\<lparr>nextDirection := \<lparr>dx = 1, dy = 0\<rparr>\<rparr>)) 1 2
   \<and> \<not> isWall 1 2"
proof -
  let ?p = "Player_update ((Player_new (1 * TILE_SIZE) (1 * TILE_SIZE))\<lparr>nextDirection := \<lparr>dx = 1, dy = 0\<rparr>\<rparr>)"
  have k: "arrow_dirs ''ArrowRight'' = Some \<lparr>dx = 1, dy = 0\<rparr>"
    by (simp add: arrow_dirs_def)
  have r: "reachable_player ?p"
    by (intro reachable_player.frame reachable_player.key[OF _ k] reachable_player.start)
  have w: "\<not> isWall 1 2"
    by (simp add: isWall_def ROWS_def COLS_def MAZE_def)
  have "?p = \<lparr>x = 67, y = 64, direction = \<lparr>dx = 1, dy = 0\<rparr>, nextDirection = \<lparr>dx = 1, dy = 0\<rparr>\<rparr>"
    using w by (simp add: Player_update_def tryChangeDirection_def Player_new_def move_defs)
  then have o: "overlaps_tile ?p 1 2"
    by (simp add: overlaps_tile_def TILE_SIZE_def sprite_size_def)
  from r o player_confined[OF r o] show ?thesis by simp
qed

section \<open>Rounding to a double\<close>

lemma bitlen_powi_bounds:
  assumes "0 < p"
  shows "(2::rat) powi (bitlen p - 1) \<le> of_int p" and "of_int p < (2::rat) powi bitlen p"
proof -
  from assms have b: "2 ^ nat (bitlen p - 1) \<le> p" "p < 2 ^ nat (bitlen p)"
    using bitlen_bounds[of p] by simp_all
  from assms have pos: "1 \<le> bitlen p"
    by (simp add: bitlen_alt_def)
  have "(2::rat) powi (bitlen p - 1) = of_int (2 ^ nat (bitlen p - 1))"
    using pos by (simp add: power_int_def)
  also have "\<dots> \<le> of_int p"
    using b(1) by (simp only: of_int_le_iff)
  finally show "(2::rat) powi (bitlen p - 1) \<le> of_int p" .
  have "(of_int p :: rat) < of_int (2 ^ nat (bitlen p))"
    using b(2) by (simp only: of_int_less_iff)
  also have "\<dots> = 2 powi bitlen p"
    using pos by (simp add: power_int_def)
  finally show "of_int p < (2::rat) powi bitlen p" .
qed

lemma binade_bounds:
  assumes "0 < v"
  shows "2 powi binade v \<le> v" and "v < 2 powi (binade v + 1)"
proof -
  obtain p q where pq: "quotient_of v = (p, q)"
    by (cases "quotient_of v")
  then have q: "0 < q" and v: "v = of_int p / of_int q"
    by (simp_all add: quotient_of_denom_pos quotient_of_div)
  with assms have p: "0 < p"
    by (simp add: zero_less_divide_iff)
  define e where "e = bitlen p - bitlen q"
  have up: "v < 2 powi (e + 1)"
  proof -
    have "v < 2 powi bitlen p / of_int q"
      unfolding v using q bitlen_powi_bounds(2)[OF p] by (simp add: divide_strict_right_mono)
    also have "\<dots> \<le> 2 powi bitlen p / 2 powi (bitlen q - 1)"
      using bitlen_powi_bounds(1)[OF q] q by (intro divide_left_mono) simp_all
    also have "\<dots> = 2 powi (e + 1)"
      by (simp add: e_def power_int_diff[symmetric] algebra_simps)
    finally show ?thesis .
  qed
  have low: "2 powi (e - 1) \<le> v"
  proof -
    have "(2::rat) powi (e - 1) = 2 powi (bitlen p - 1) / 2 powi bitlen q"
      by (simp add: e_def power_int_diff[symmetric] algebra_simps)
    also have "\<dots> \<le> of_int p / 2 powi bitlen q"
      using bitlen_powi_bounds(1)[OF p] by (intro divide_right_mono) simp_all
    also have "\<dots> \<le> of_int p / of_int q"
      using bitlen_powi_bounds(2)[OF q] p q by (intro divide_left_mono) simp_all
    finally show ?thesis
      by (simp add: v)
  qed
  have b: "binade v = (if v < 2 powi e then e - 1 else e)"
    by (simp add: binade_def pq e_def Let_def)
  show "2 powi binade v \<le> v"
    using low by (simp add: b)
  show "v < 2 powi (binade v + 1)"
    using up by (simp add: b)
qed

lemma two_powi_less_imp: "(2::rat) powi m < 2 powi n \<Longrightarrow> m < n"
  using power_int_increasing[of n m "2::rat"] by (cases "m < n") auto

lemma binade_unique:
  assumes "2 powi e \<le> v" "v < 2 powi (e + 1)"
  shows "binade v = e"
proof -
  have pos: "0 < v"
    using assms(1) by (rule less_le_trans[rotated]) simp
  from binade_bounds[OF pos] assms
  have "(2::rat) powi binade v < 2 powi (e + 1)" "(2::rat) powi e < 2 powi (binade v + 1)"
    by linarith+
  then have "binade v < e + 1" "e < binade v + 1"
    using two_powi_less_imp by blast+
  then show ?thesis
    by simp
qed


lemma round_half_even_cases:
  "round_half_even q = \<lfloor>q\<rfloor> \<and> q - of_int \<lfloor>q\<rfloor> \<le> 1 / 2 \<or>
   round_half_even q = \<lfloor>q\<rfloor> + 1 \<and> 1 / 2 \<le> q - of_int \<lfloor>q\<rfloor>"
  by (auto simp add: round_half_even_def Let_def)

lemma round_half_even_error: "\<bar>of_int (round_half_even q) - q\<bar> \<le> 1 / 2"
proof -
  have "of_int \<lfloor>q\<rfloor> \<le> q" "q < of_int \<lfloor>q\<rfloor> + 1"
    by linarith+
  with round_half_even_cases[of q] show ?thesis
    by auto
qed

lemma round_half_even_ge: "of_int k \<le> q \<Longrightarrow> k \<le> round_half_even q"
proof -
  assume "of_int k \<le> q"
  then have "k \<le> \<lfloor>q\<rfloor>"
    by (simp add: le_floor_iff)
  with round_half_even_cases[of q] show ?thesis
    by auto
qed

lemma round_half_even_le: "q \<le> of_int k \<Longrightarrow> round_half_even q \<le> k"
proof -
  assume a: "q \<le> of_int k"
  show ?thesis
  proof (cases "q = of_int k")
    case True
    then show ?thesis
      by (simp add: round_half_even_def)
  next
    case False
    with a have "q < of_int k"
      by simp
    then have "\<lfloor>q\<rfloor> < k"
      by (simp add: floor_less_iff)
    with round_half_even_cases[of q] show ?thesis
      by auto
  qed
qed

lemma round_half_even_mono:
  assumes "q \<le> q'"
  shows "round_half_even q \<le> round_half_even q'"
proof (cases "\<lfloor>q\<rfloor> = \<lfloor>q'\<rfloor>")
  case True
  with assms show ?thesis
    by (auto simp add: round_half_even_def Let_def)
next
  case False
  with assms have "\<lfloor>q\<rfloor> + 1 \<le> \<lfloor>q'\<rfloor>"
    using floor_mono[OF assms] by linarith
  with round_half_even_cases[of q] round_half_even_cases[of q'] show ?thesis
    by auto
qed


lemma two_powi_53: "(2 ^ 53 :: rat) * 2 powi (e - 52) = 2 powi (e + 1)"
  using power_int_add[of "2::rat" 53 "e - 52"] by (simp add: add.commute)

lemma two_powi_52: "(2 ^ 52 :: rat) * 2 powi (e - 52) = 2 powi e"
  using power_int_add[of "2::rat" 52 "e - 52"] by (simp add: add.commute)

lemma binade_mono:
  assumes "0 < a" "a \<le> b"
  shows "binade a \<le> binade b"
proof -
  from assms have "0 < b"
    by simp
  from binade_bounds(1)[OF assms(1)] binade_bounds(2)[OF this] assms(2)
  have "(2::rat) powi binade a < 2 powi (binade b + 1)"
    by linarith
  then have "binade a < binade b + 1"
    by (rule two_powi_less_imp)
  then show ?thesis
    by simp
qed

lemma nearest_double_nonneg:
  assumes "0 \<le> v"
  shows "0 \<le> nearest_double v"
proof -
  have "0 \<le> round_half_even (v / 2 powi (max (binade v) (- 1022) - 52))"
    using assms by (intro round_half_even_ge) simp
  then show ?thesis
    by (simp add: nearest_double_def Let_def)
qed

lemma nearest_double_upper:
  assumes "0 < v"
  shows "nearest_double v \<le> 2 powi (max (binade v) (- 1022) + 1)"
proof -
  define e where "e = max (binade v) (- 1022)"
  have "v < 2 powi (binade v + 1)"
    using assms by (rule binade_bounds)
  also have "\<dots> \<le> 2 powi (e + 1)"
    by (intro power_int_increasing) (simp_all add: e_def)
  finally have "v / 2 powi (e - 52) \<le> 2 powi (e + 1) / 2 powi (e - 52)"
    by (intro divide_right_mono) simp_all
  also have "\<dots> = of_int (2 ^ 53)"
    by (simp add: power_int_diff[symmetric])
  finally have "round_half_even (v / 2 powi (e - 52)) \<le> 2 ^ 53"
    by (rule round_half_even_le)
  then have "(of_int (round_half_even (v / 2 powi (e - 52))) :: rat) \<le> of_int (2 ^ 53)"
    by (simp only: of_int_le_iff)
  then have "of_int (round_half_even (v / 2 powi (e - 52))) * 2 powi (e - 52)
      \<le> (of_int (2 ^ 53) :: rat) * 2 powi (e - 52)"
    by (intro mult_right_mono) simp_all
  also have "\<dots> = 2 powi (e + 1)"
    using two_powi_53[of e] by simp
  finally show ?thesis
    by (simp add: nearest_double_def Let_def e_def)
qed

lemma nearest_double_lower:
  assumes "2 powi (- 1022) \<le> v"
  shows "2 powi binade v \<le> nearest_double v" and "- 1022 \<le> binade v"
proof -
  have pos: "0 < v"
    using assms by (rule less_le_trans[rotated]) simp
  have "(2::rat) powi (- 1022) < 2 powi (binade v + 1)"
    using assms binade_bounds(2)[OF pos] by linarith
  then have "- 1022 < binade v + 1"
    by (rule two_powi_less_imp)
  then show n: "- 1022 \<le> binade v"
    by simp
  define e where "e = binade v"
  have "(of_int (2 ^ 52) :: rat) = 2 powi e / 2 powi (e - 52)"
    by (simp add: power_int_diff[symmetric])
  also have "\<dots> \<le> v / 2 powi (e - 52)"
    unfolding e_def using binade_bounds(1)[OF pos] by (intro divide_right_mono) simp_all
  finally have "2 ^ 52 \<le> round_half_even (v / 2 powi (e - 52))"
    by (rule round_half_even_ge)
  then have "(of_int (2 ^ 52) :: rat) \<le> of_int (round_half_even (v / 2 powi (e - 52)))"
    by (simp only: of_int_le_iff)
  then have "(of_int (2 ^ 52) :: rat) * 2 powi (e - 52)
      \<le> of_int (round_half_even (v / 2 powi (e - 52))) * 2 powi (e - 52)"
    by (intro mult_right_mono) simp_all
  moreover have "(of_int (2 ^ 52) :: rat) * 2 powi (e - 52) = 2 powi e"
    using two_powi_52[of e] by simp
  ultimately have "(2::rat) powi e \<le> of_int (round_half_even (v / 2 powi (e - 52))) * 2 powi (e - 52)"
    by (simp only:)
  moreover have "nearest_double v = of_int (round_half_even (v / 2 powi (e - 52))) * 2 powi (e - 52)"
    using n by (simp add: nearest_double_def Let_def e_def max_def)
  ultimately show "2 powi binade v \<le> nearest_double v"
    by (simp only: e_def)
qed

lemma nearest_double_mono:
  assumes "0 \<le> a" "a \<le> b"
  shows "nearest_double a \<le> nearest_double b"
proof (cases "a = 0")
  case True
  have "nearest_double 0 = 0"
    by (simp add: nearest_double_def round_half_even_def)
  with True assms nearest_double_nonneg[of b] show ?thesis
    by simp
next
  case False
  with assms have a: "0 < a" and b: "0 < b"
    by simp_all
  define ea where "ea = max (binade a) (- 1022)"
  define eb where "eb = max (binade b) (- 1022)"
  have le: "ea \<le> eb"
    using binade_mono[OF a assms(2)] by (simp add: ea_def eb_def)
  show ?thesis
  proof (cases "ea = eb")
    case True
    have "a / 2 powi (eb - 52) \<le> b / 2 powi (eb - 52)"
      using assms(2) by (intro divide_right_mono) simp_all
    then have "round_half_even (a / 2 powi (eb - 52)) \<le> round_half_even (b / 2 powi (eb - 52))"
      by (rule round_half_even_mono)
    then have "(of_int (round_half_even (a / 2 powi (eb - 52))) :: rat)
        \<le> of_int (round_half_even (b / 2 powi (eb - 52)))"
      by (simp only: of_int_le_iff)
    then have "of_int (round_half_even (a / 2 powi (eb - 52))) * 2 powi (eb - 52)
        \<le> (of_int (round_half_even (b / 2 powi (eb - 52))) :: rat) * 2 powi (eb - 52)"
      by (intro mult_right_mono) simp_all
    then show ?thesis
      using True by (simp add: nearest_double_def Let_def ea_def eb_def)
  next
    case False
    with le have lt: "ea + 1 \<le> eb"
      by simp
    then have nb: "eb = binade b" "- 1022 < binade b"
      by (auto simp add: ea_def eb_def)
    then have "(2::rat) powi (- 1022) \<le> 2 powi binade b"
      by (intro power_int_increasing) simp_all
    also have "\<dots> \<le> b"
      using b by (rule binade_bounds)
    finally have "2 powi binade b \<le> nearest_double b"
      by (rule nearest_double_lower)
    moreover have "nearest_double a \<le> 2 powi (ea + 1)"
      unfolding ea_def using a by (rule nearest_double_upper)
    moreover have "(2::rat) powi (ea + 1) \<le> 2 powi eb"
      using lt by (intro power_int_increasing) simp_all
    ultimately show ?thesis
      by (simp add: nb(1))
  qed
qed

lemma nearest_double_error:
  assumes "2 powi (- 1022) \<le> v"
  shows "\<bar>nearest_double v - v\<bar> \<le> v / 2 ^ 53"
proof -
  have pos: "0 < v"
    using assms by (rule less_le_trans[rotated]) simp
  define e where "e = binade v"
  define u :: rat where "u = 2 powi (e - 52)"
  have u: "0 < u"
    by (simp add: u_def)
  have n: "nearest_double v = of_int (round_half_even (v / u)) * u"
    using nearest_double_lower(2)[OF assms]
    by (simp add: nearest_double_def Let_def e_def u_def max_def)
  have "(of_int (round_half_even (v / u)) - v / u) * u = nearest_double v - v"
    using u by (simp add: n left_diff_distrib)
  then have "\<bar>nearest_double v - v\<bar> = \<bar>of_int (round_half_even (v / u)) - v / u\<bar> * \<bar>u\<bar>"
    by (simp only: abs_mult[symmetric])
  then have "\<bar>nearest_double v - v\<bar> = \<bar>of_int (round_half_even (v / u)) - v / u\<bar> * u"
    using u by simp
  also have "\<dots> \<le> 1 / 2 * u"
    using u round_half_even_error[of "v / u"] by (intro mult_right_mono) simp_all
  also have "\<dots> = 2 powi e / 2 ^ 53"
    by (simp add: u_def power_int_diff)
  also have "\<dots> \<le> v / 2 ^ 53"
    unfolding e_def using binade_bounds(1)[OF pos] by (intro divide_right_mono) simp_all
  finally show ?thesis .
qed


lemma round_double_nonneg_eq: "0 \<le> v \<Longrightarrow> round_double v = nearest_double v"
  by (simp add: round_double_def)

lemma round_double_mono: "0 \<le> a \<Longrightarrow> a \<le> b \<Longrightarrow> round_double a \<le> round_double b"
  by (simp add: round_double_nonneg_eq nearest_double_mono)

lemma round_double_small_int:
  "round_double 0 = 0" "round_double 1 = 1" "round_double 2 = 2" "round_double 3 = 3"
  "round_double 4 = 4"
  by code_simp+

lemma round_double_below_int:
  "round_double (1 - 1 / 2 ^ 53) < 1" "round_double ((1 - 1 / 2 ^ 53) * 2) < 2"
  "round_double ((1 - 1 / 2 ^ 53) * 3) < 3" "round_double ((1 - 1 / 2 ^ 53) * 4) < 4"
  by code_simp+

lemma round_double_ge_int:
  assumes "k \<in> {0, 1, 2, 3, 4}" "of_int k \<le> v"
  shows "of_int k \<le> round_double v"
proof -
  from assms have "0 \<le> (of_int k :: rat)"
    by auto
  from round_double_mono[OF this assms(2)] assms(1) show ?thesis
    by (auto simp add: round_double_small_int)
qed

lemma round_double_error:
  assumes "1 \<le> round_double v" "0 \<le> v"
  shows "round_double v \<le> v * (1 + 1 / 2 ^ 53)"
proof (cases "2 powi (- 1022) \<le> v")
  case True
  from nearest_double_error[OF this] have "nearest_double v - v \<le> v / 2 ^ 53"
    by linarith
  then have "nearest_double v \<le> v + v / 2 ^ 53"
    by linarith
  also have "\<dots> = v * (1 + 1 / 2 ^ 53)"
    by (simp only: distrib_left mult_1_right times_divide_eq_right)
  finally show ?thesis
    using assms(2) by (simp only: round_double_nonneg_eq)
next
  case False
  have "round_double v < 1"
  proof (cases "v = 0")
    case True
    then show ?thesis
      by (simp add: round_double_small_int)
  next
    case nz: False
    with assms(2) have pos: "0 < v"
      by simp
    from False binade_bounds(1)[OF pos] have "(2::rat) powi binade v < 2 powi (- 1022)"
      by linarith
    then have "binade v < - 1022"
      by (rule two_powi_less_imp)
    then have "max (binade v) (- 1022) = - 1022"
      by simp
    with nearest_double_upper[OF pos] have "nearest_double v \<le> 2 powi (- 1021)"
      by simp
    also have "\<dots> < (1::rat)"
      using power_int_strict_increasing[of "- 1021" 0 "2::rat"] by simp
    finally show ?thesis
      using assms(2) by (simp add: round_double_nonneg_eq)
  qed
  with assms(1) show ?thesis
    by simp
qed


lemma double_below_one:
  assumes "0 \<le> r" "r < 1" "round_double r = r"
  shows "r \<le> 1 - 1 / 2 ^ 53"
proof (rule ccontr)
  assume "\<not> r \<le> 1 - 1 / 2 ^ 53"
  then have big: "1 - 1 / 2 ^ 53 < r"
    by simp
  then have "2 powi (- 1) \<le> r" "r < 2 powi (- 1 + 1)"
    using assms(2) by simp_all
  then have "binade r = - 1"
    by (rule binade_unique)
  then have "nearest_double r = of_int (round_half_even (r / 2 powi (- 53))) * 2 powi (- 53)"
    by (simp add: nearest_double_def)
  with assms have eq: "r = of_int (round_half_even (r / 2 powi (- 53))) * 2 powi (- 53)"
    by (simp only: round_double_nonneg_eq)
  define m where "m = round_half_even (r / 2 powi (- 53))"
  have "(2::rat) powi (- 53) = 1 / 2 ^ 53"
    by (simp only: power_int_minus_divide power_int_numeral)
  with eq have m: "r = of_int m / 2 ^ 53"
    by (simp only: m_def times_divide_eq_right mult_1_right)
  with big assms(2) have "(of_int (2 ^ 53 - 1) :: rat) < of_int m" "(of_int m :: rat) < of_int (2 ^ 53)"
    by (simp_all add: field_simps)
  then have "2 ^ 53 - 1 < m" "m < 2 ^ 53"
    by (simp_all only: of_int_less_iff)
  then show False
    by simp
qed

lemma random_index_in_bounds:
  assumes "0 \<le> r" "r < 1" "round_double r = r" "n \<in> {1, 2, 3, 4}"
  shows "0 \<le> \<lfloor>round_double (r * of_nat n)\<rfloor> \<and> \<lfloor>round_double (r * of_nat n)\<rfloor> < int n"
proof -
  have r: "r \<le> 1 - 1 / 2 ^ 53"
    using assms(1-3) by (rule double_below_one)
  have nonneg: "0 \<le> r * of_nat n"
    using assms(1) by simp
  then have "0 \<le> round_double (r * of_nat n)"
    by (simp add: round_double_nonneg_eq nearest_double_nonneg)
  moreover have "round_double (r * of_nat n) \<le> round_double ((1 - 1 / 2 ^ 53) * of_nat n)"
    using nonneg r by (intro round_double_mono mult_right_mono) simp_all
  then have "round_double (r * of_nat n) < of_nat n"
    using assms(4) round_double_below_int by auto
  ultimately show ?thesis
    by (simp add: floor_less_iff)
qed

lemma random_index_near:
  assumes "0 \<le> r" "n \<le> 4" "k < n"
  shows "\<lfloor>round_double (r * of_nat n)\<rfloor> = int k \<longrightarrow>
           of_nat k \<le> r * of_nat n * (1 + 1 / 2 ^ 53) \<and> r * of_nat n < of_nat k + 1"
    and "of_nat k \<le> r * of_nat n \<and> r * of_nat n * (1 + 1 / 2 ^ 53) < of_nat k + 1 \<longrightarrow>
           \<lfloor>round_double (r * of_nat n)\<rfloor> = int k"
proof -
  define v where "v = r * of_nat n"
  have v: "0 \<le> v"
    using assms(1) by (simp add: v_def)
  from assms have small: "int k \<in> {0, 1, 2, 3, 4}" "int k + 1 \<in> {0, 1, 2, 3, 4}"
    by auto
  show "\<lfloor>round_double (r * of_nat n)\<rfloor> = int k \<longrightarrow>
           of_nat k \<le> r * of_nat n * (1 + 1 / 2 ^ 53) \<and> r * of_nat n < of_nat k + 1"
  proof
    assume "\<lfloor>round_double (r * of_nat n)\<rfloor> = int k"
    then have j: "of_int (int k) \<le> round_double v" "round_double v < of_int (int k) + 1"
      unfolding v_def by linarith+
    have up: "v < of_nat k + 1"
    proof (rule ccontr)
      assume "\<not> v < of_nat k + 1"
      then have "of_int (int k + 1) \<le> v"
        by simp
      with small(2) have "of_int (int k + 1) \<le> round_double v"
        by (rule round_double_ge_int)
      with j(2) show False
        by simp
    qed
    have low: "of_nat k \<le> v * (1 + 1 / 2 ^ 53)"
    proof (cases "k = 0")
      case True
      with v show ?thesis
        by simp
    next
      case False
      with j(1) have "1 \<le> round_double v"
        by (auto simp add: Suc_le_eq dest: order_trans[rotated])
      from round_double_error[OF this v] j(1) show ?thesis
        by simp
    qed
    from low up show "of_nat k \<le> r * of_nat n * (1 + 1 / 2 ^ 53) \<and> r * of_nat n < of_nat k + 1"
      by (simp add: v_def)
  qed
  show "of_nat k \<le> r * of_nat n \<and> r * of_nat n * (1 + 1 / 2 ^ 53) < of_nat k + 1 \<longrightarrow>
           \<lfloor>round_double (r * of_nat n)\<rfloor> = int k"
  proof
    assume a: "of_nat k \<le> r * of_nat n \<and> r * of_nat n * (1 + 1 / 2 ^ 53) < of_nat k + 1"
    then have "of_int (int k) \<le> v"
      by (simp add: v_def)
    with small(1) have low: "of_int (int k) \<le> round_double v"
      by (rule round_double_ge_int)
    have up: "round_double v < of_int (int k) + 1"
    proof (cases "1 \<le> round_double v")
      case True
      from round_double_error[OF this v] a show ?thesis
        by (simp add: v_def)
    next
      case False
      then show ?thesis
        by simp
    qed
    from low up show "\<lfloor>round_double (r * of_nat n)\<rfloor> = int k"
      unfolding v_def by linarith
  qed
qed


lemma round_half_even_of_int: "round_half_even (of_int m) = m"
  by (simp add: round_half_even_def)

lemma nearest_double_times_two:
  assumes "0 < v" "nearest_double v = v"
  shows "nearest_double (2 * v) = 2 * v"
proof -
  define e where "e = max (binade v) (- 1022)"
  define m where "m = round_half_even (v / 2 powi (e - 52))"
  have v: "v = of_int m * 2 powi (e - 52)"
    using assms(2) by (simp add: nearest_double_def Let_def e_def m_def)
  have b: "binade (2 * v) = binade v + 1"
  proof (rule binade_unique)
    show "2 powi (binade v + 1) \<le> 2 * v"
      using binade_bounds(1)[OF assms(1)] by (simp add: power_int_add)
    show "2 * v < 2 powi (binade v + 1 + 1)"
      using binade_bounds(2)[OF assms(1)] by (simp add: power_int_add)
  qed
  show ?thesis
  proof (cases "- 1022 \<le> binade v")
    case True
    then have e: "e = binade v" "max (binade (2 * v)) (- 1022) = e + 1"
      by (simp_all add: e_def b)
    have "2 * v / 2 powi (e + 1 - 52) = v / 2 powi (e - 52)"
      using power_int_add[of "2::rat" "e - 52" 1] by simp
    also have "\<dots> = of_int m"
      using v by simp
    finally have q: "2 * v / 2 powi (e + 1 - 52) = of_int m" .
    have "nearest_double (2 * v) = of_int m * 2 powi (e + 1 - 52)"
      by (simp only: nearest_double_def Let_def e(2) q round_half_even_of_int)
    also have "\<dots> = 2 * v"
      using power_int_add[of "2::rat" "e - 52" 1] v by simp
    finally show ?thesis .
  next
    case False
    then have e: "e = - 1022" "max (binade (2 * v)) (- 1022) = - 1022"
      by (simp_all add: e_def b)
    have "2 * v / 2 powi (- 1022 - 52) = of_int (2 * m)"
      using v by (simp add: e(1))
    then have "nearest_double (2 * v) = of_int (2 * m) * 2 powi (- 1022 - 52)"
      by (simp only: nearest_double_def Let_def e(2) round_half_even_of_int)
    also have "\<dots> = 2 * v"
      using v by (simp add: e(1))
    finally show ?thesis .
  qed
qed

lemma round_double_times_two:
  assumes "0 \<le> v" "round_double v = v"
  shows "round_double (2 * v) = 2 * v"
proof (cases "v = 0")
  case True
  then show ?thesis
    by (simp add: round_double_small_int)
next
  case False
  with assms have "0 < v" "nearest_double v = v"
    by (simp_all add: round_double_nonneg_eq)
  then have "nearest_double (2 * v) = 2 * v"
    by (rule nearest_double_times_two)
  with assms(1) show ?thesis
    by (simp add: round_double_nonneg_eq)
qed

lemma round_double_times_power_of_two:
  assumes "0 \<le> r" "round_double r = r" "n \<in> {1, 2, 4}"
  shows "round_double (r * of_nat n) = r * of_nat n"
proof -
  have two: "round_double (2 * r) = 2 * r"
    using assms(1,2) by (rule round_double_times_two)
  have "0 \<le> 2 * r"
    using assms(1) by simp
  then have "round_double (2 * (2 * r)) = 2 * (2 * r)"
    using two by (rule round_double_times_two)
  then have four: "round_double (4 * r) = 4 * r"
    by simp
  from assms two four show ?thesis
    by (auto simp add: mult.commute)
qed

section \<open>The pursuer chooses a direction\<close>

lemma maze_scan:
  "list_all (\<lambda>r. list_all (\<lambda>c. isWall r c \<or> has_open_neighbour r c) [0..14]) [0..12]"
  by code_simp


lemma walkable_in_maze: "\<not> isWall r c \<Longrightarrow> r \<in> set [0..12] \<and> c \<in> set [0..14]"
  by (simp add: isWall_def ROWS_def COLS_def split: if_splits)

lemma walkable_has_open_neighbour: "\<not> isWall r c \<Longrightarrow> has_open_neighbour r c"
proof -
  assume w: "\<not> isWall r c"
  from maze_scan
  have "\<forall>r \<in> set [0..12]. \<forall>c \<in> set [0..14]. isWall r c \<or> has_open_neighbour r c"
    by (simp only: list_all_iff)
  with w walkable_in_maze[OF w] show ?thesis
    by blast
qed

lemma possible_eq:
  "possible e = map (\<lambda>d. \<lparr>dir = d, reverse = reversal e d\<rparr>) (filter (open_dir e) dirs)"
proof -
  have "open_dir e = (\<lambda>d. \<not> isWall (tile_of (y e) + dy d) (tile_of (x e) + dx d))"
    by (rule ext) (simp add: open_dir_def)
  then show ?thesis
    by (simp add: possible_def Let_def reversal_def)
qed

lemma candidates_eq:
  "candidates e =
     map (\<lambda>d. \<lparr>dir = d, reverse = reversal e d\<rparr>)
       (if non_reversing e = [] then filter (open_dir e) dirs else non_reversing e)"
  by (simp add: candidates_def possible_eq Let_def filter_map comp_def non_reversing_def)

lemma distinct_dirs: "distinct dirs"
  by (simp add: dirs_def)

lemma non_reversing_subset: "set (non_reversing e) \<subseteq> {d \<in> set dirs. open_dir e d \<and> \<not> reversal e d}"
  by (auto simp add: non_reversing_def)

lemma reversal_unique: "reversal e d \<Longrightarrow> reversal e d' \<Longrightarrow> d = d'"
  by (simp add: reversal_def)

lemma candidates_nonempty:
  assumes "has_open_neighbour (tile_of (y e)) (tile_of (x e))"
  shows "candidates e \<noteq> []"
proof -
  from assms obtain d where "d \<in> set dirs" "open_dir e d"
    by (auto simp add: has_open_neighbour_def open_dir_def)
  then have "filter (open_dir e) dirs \<noteq> []"
    by (auto simp add: filter_empty_conv)
  then show ?thesis
    by (simp add: candidates_eq)
qed

lemma length_candidates: "length (candidates e) \<le> 4"
proof -
  have "length (filter P dirs) \<le> 4" for P :: "vec \<Rightarrow> bool"
    using length_filter_le[of P dirs] by (simp add: dirs_def)
  then show ?thesis
    by (simp add: candidates_eq non_reversing_def)
qed

lemma chooseDirection_aligned:
  assumes "tile_aligned e"
  shows "chooseDirection rnd e =
     (case at_index (candidates e) \<lfloor>round_double (rnd * of_nat (length (candidates e)))\<rfloor> of
        None \<Rightarrow> Inl TypeError
      | Some choice \<Rightarrow> Inr (e\<lparr>direction := dir choice\<rparr>))"
  using assms by (simp add: chooseDirection_def tile_aligned_def)

text \<open>
  C8: every walkable cell of the maze has a walkable orthogonal neighbour; hence for a
  pursuer that is tile-aligned on a walkable cell the list of candidates is not empty,
  the random index, the floor of the double product of a double of \<open>[0, 1)\<close> and the
  length, is within its bounds, and \<open>chooseDirection\<close> assigns a direction without reading
  \<open>dir\<close> of an undefined element.
\<close>

theorem chooseDirection_never_undefined:
  "(\<not> isWall r c \<longrightarrow> (\<exists>d \<in> set dirs. \<not> isWall (r + dy d) (c + dx d))) \<and>
   (tile_aligned e \<and> \<not> isWall (tile_of (y e)) (tile_of (x e)) \<and>
    0 \<le> rnd \<and> rnd < 1 \<and> round_double rnd = rnd \<longrightarrow>
      candidates e \<noteq> [] \<and>
      0 \<le> \<lfloor>round_double (rnd * of_nat (length (candidates e)))\<rfloor> \<and>
      \<lfloor>round_double (rnd * of_nat (length (candidates e)))\<rfloor> < int (length (candidates e)) \<and>
      (\<exists>e'. chooseDirection rnd e = Inr e'))"
proof (intro conjI impI)
  assume "\<not> isWall r c"
  then show "\<exists>d \<in> set dirs. \<not> isWall (r + dy d) (c + dx d)"
    using walkable_has_open_neighbour by (simp add: has_open_neighbour_def)
next
  assume a: "tile_aligned e \<and> \<not> isWall (tile_of (y e)) (tile_of (x e)) \<and>
    0 \<le> rnd \<and> rnd < 1 \<and> round_double rnd = rnd"
  then have ne: "candidates e \<noteq> []"
    by (simp add: candidates_nonempty walkable_has_open_neighbour)
  then show "candidates e \<noteq> []" .
  then have "0 < length (candidates e)"
    by simp
  with length_candidates[of e] have "length (candidates e) \<in> {1, 2, 3, 4}"
    by (simp only: insert_iff empty_iff) linarith
  with a have b: "0 \<le> \<lfloor>round_double (rnd * of_nat (length (candidates e)))\<rfloor> \<and>
      \<lfloor>round_double (rnd * of_nat (length (candidates e)))\<rfloor> < int (length (candidates e))"
    by (intro random_index_in_bounds) simp_all
  then show "0 \<le> \<lfloor>round_double (rnd * of_nat (length (candidates e)))\<rfloor>"
    and "\<lfloor>round_double (rnd * of_nat (length (candidates e)))\<rfloor> < int (length (candidates e))"
    by simp_all
  from a b show "\<exists>e'. chooseDirection rnd e = Inr e'"
    by (simp add: chooseDirection_aligned at_index_def)
qed

theorem chooseDirection_never_undefined_witness:
  "\<not> isWall 11 1 \<and> (\<exists>d \<in> set dirs. \<not> isWall (11 + dy d) (1 + dx d)) \<and>
   tile_aligned (Enemy_new 0 64 704) \<and>
   \<not> isWall (tile_of (y (Enemy_new 0 64 704))) (tile_of (x (Enemy_new 0 64 704))) \<and>
   (0::rat) \<le> 1 / 2 \<and> (1 / 2 :: rat) < 1 \<and> round_double (1 / 2) = 1 / 2 \<and>
   candidates (Enemy_new 0 64 704) \<noteq> [] \<and>
   (\<exists>e'. chooseDirection (1 / 2) (Enemy_new 0 64 704) = Inr e')"
proof -
  have w: "\<not> isWall 11 1"
    by (simp add: isWall_def ROWS_def COLS_def MAZE_def)
  have a: "tile_aligned (Enemy_new 0 64 704)"
    by (simp add: tile_aligned_def js_rem_def TILE_SIZE_def Enemy_new_def)
  have t: "tile_of (y (Enemy_new 0 64 704)) = 11" "tile_of (x (Enemy_new 0 64 704)) = 1"
    by (simp_all add: tile_of_def TILE_SIZE_def Enemy_new_def)
  have d: "round_double (1 / 2) = 1 / 2"
    by code_simp
  from chooseDirection_never_undefined[of 11 1 "Enemy_new 0 64 704" "1 / 2"] w a t d show ?thesis
    by simp
qed

lemma floor_eq_index:
  assumes "0 < n"
  shows "(\<lfloor>rnd * of_nat n\<rfloor> = int k) = (of_nat k / of_nat n \<le> rnd \<and> rnd < of_nat (k + 1) / (of_nat n :: rat))"
proof -
  have "(\<lfloor>rnd * of_nat n\<rfloor> = int k) = (of_int (int k) \<le> rnd * of_nat n \<and> rnd * of_nat n < of_int (int k) + 1)"
    by (rule floor_eq_iff)
  also have "\<dots> = (of_nat k / of_nat n \<le> rnd \<and> rnd < of_nat (k + 1) / (of_nat n :: rat))"
    using assms by (simp add: pos_divide_le_eq pos_less_divide_eq add.commute)
  finally show ?thesis .
qed

lemma spawn_aligned: "tile_aligned (Enemy_new 0 64 704)"
  by (simp add: tile_aligned_def js_rem_def TILE_SIZE_def Enemy_new_def)

lemma spawn_non_reversing:
  "non_reversing (Enemy_new 0 64 704) = [\<lparr>dx = 1, dy = 0\<rparr>, \<lparr>dx = 0, dy = - 1\<rparr>]"
  by code_simp

lemma spawn_choice:
  "chooseDirection (1 / 2) (Enemy_new 0 64 704)
     = Inr ((Enemy_new 0 64 704)\<lparr>direction := \<lparr>dx = 0, dy = - 1\<rparr>\<rparr>)"
  by code_simp

lemma half_is_double: "round_double (1 / 2) = 1 / 2"
  by code_simp

lemma junction_aligned:
  "tile_aligned \<lparr>x = 384, y = 64, direction = \<lparr>dx = 0, dy = 0\<rparr>, spawnTimestamp = 0\<rparr>"
  by (simp add: tile_aligned_def js_rem_def TILE_SIZE_def)

lemma junction_non_reversing:
  "non_reversing \<lparr>x = 384, y = 64, direction = \<lparr>dx = 0, dy = 0\<rparr>, spawnTimestamp = 0\<rparr>
     = [\<lparr>dx = 1, dy = 0\<rparr>, \<lparr>dx = - 1, dy = 0\<rparr>, \<lparr>dx = 0, dy = 1\<rparr>]"
  by code_simp

lemma below_a_third_is_double:
  "round_double (6004799503160661 / 2 ^ 54) = 6004799503160661 / 2 ^ 54"
  by code_simp

lemma below_a_third_times_three: "round_double (6004799503160661 / 2 ^ 54 * of_nat 3) = 1"
  by code_simp

lemma junction_choice:
  "chooseDirection (6004799503160661 / 2 ^ 54)
       \<lparr>x = 384, y = 64, direction = \<lparr>dx = 0, dy = 0\<rparr>, spawnTimestamp = 0\<rparr>
     = Inr \<lparr>x = 384, y = 64, direction = \<lparr>dx = - 1, dy = 0\<rparr>, spawnTimestamp = 0\<rparr>"
  by code_simp

text \<open>
  C2, as the code has it: at a tile-aligned position, the direction that \<open>chooseDirection\<close>
  assigns is an open neighbour direction of the current cell; it is the reversal of the
  current direction only if the reversal is the only open direction; and where
  non-reversing open directions exist, the \<open>k\<close>-th of the \<open>n\<close> of them is chosen exactly
  when the floor of the double product of the random number and \<open>n\<close> is \<open>k\<close>. For \<open>n\<close> other
  than 3 the product is exact, and these are the random numbers of the interval from
  \<open>k / n\<close> to \<open>(k + 1) / n\<close>, one of \<open>n\<close> intervals of equal width (the choice is uniform for
  a uniform random number). For \<open>n = 3\<close> the product is rounded, and the ends of the
  interval are met only up to a relative error of \<open>2 ^ - 53\<close>.
\<close>

theorem chooseDirection_policy:
  assumes al: "tile_aligned e" and r0: "0 \<le> rnd" and r1: "rnd < 1"
    and dbl: "round_double rnd = rnd"
    and res: "chooseDirection rnd e = Inr e'"
  shows "direction e' \<in> set dirs \<and> open_dir e (direction e') \<and>
    (reversal e (direction e') \<longrightarrow> (\<forall>d \<in> set dirs. open_dir e d \<longrightarrow> d = direction e')) \<and>
    (\<forall>k < length (non_reversing e).
       (direction e' = non_reversing e ! k) =
         (\<lfloor>round_double (rnd * of_nat (length (non_reversing e)))\<rfloor> = int k) \<and>
       (length (non_reversing e) \<noteq> 3 \<longrightarrow>
          (direction e' = non_reversing e ! k) =
          (of_nat k / of_nat (length (non_reversing e)) \<le> rnd \<and>
           rnd < of_nat (k + 1) / of_nat (length (non_reversing e)))) \<and>
       (direction e' = non_reversing e ! k \<longrightarrow>
          of_nat k \<le> rnd * of_nat (length (non_reversing e)) * (1 + 1 / 2 ^ 53) \<and>
          rnd * of_nat (length (non_reversing e)) < of_nat k + 1) \<and>
       (of_nat k \<le> rnd * of_nat (length (non_reversing e)) \<and>
        rnd * of_nat (length (non_reversing e)) * (1 + 1 / 2 ^ 53) < of_nat k + 1 \<longrightarrow>
          direction e' = non_reversing e ! k))"
proof -
  define ds where "ds = (if non_reversing e = [] then filter (open_dir e) dirs else non_reversing e)"
  define j where "j = \<lfloor>round_double (rnd * of_nat (length ds))\<rfloor>"
  have cs: "candidates e = map (\<lambda>d. \<lparr>dir = d, reverse = reversal e d\<rparr>) ds"
    by (simp add: candidates_eq ds_def)
  from res al have inb: "0 \<le> j \<and> j < int (length ds)"
    by (auto simp add: chooseDirection_aligned cs j_def at_index_def split: if_splits)
  then have nj: "nat j < length ds"
    by linarith
  from res al inb have "direction e' = dir (map (\<lambda>d. \<lparr>dir = d, reverse = reversal e d\<rparr>) ds ! nat j)"
    by (auto simp add: chooseDirection_aligned cs j_def at_index_def split: if_splits)
  with nj have d': "direction e' = ds ! nat j"
    by simp
  with nj have mem: "direction e' \<in> set ds"
    by simp
  have sub: "set ds \<subseteq> {d \<in> set dirs. open_dir e d}"
    by (auto simp add: ds_def non_reversing_def)
  have part1: "direction e' \<in> set dirs \<and> open_dir e (direction e')"
    using mem sub by blast
  have part2: "\<forall>d \<in> set dirs. open_dir e d \<longrightarrow> d = direction e'" if rev: "reversal e (direction e')"
  proof (intro ballI impI)
    fix d assume d: "d \<in> set dirs" "open_dir e d"
    from rev mem have "non_reversing e = []"
      by (auto simp add: ds_def non_reversing_def split: if_splits)
    with d have "reversal e d"
      by (auto simp add: non_reversing_def filter_empty_conv)
    with rev show "d = direction e'"
      by (rule reversal_unique[rotated])
  qed
  have len: "length ds \<le> 4"
    using length_candidates[of e] by (simp add: cs)
  have part3: "(direction e' = non_reversing e ! k) =
         (\<lfloor>round_double (rnd * of_nat (length (non_reversing e)))\<rfloor> = int k) \<and>
       (length (non_reversing e) \<noteq> 3 \<longrightarrow>
          (direction e' = non_reversing e ! k) =
          (of_nat k / of_nat (length (non_reversing e)) \<le> rnd \<and>
           rnd < of_nat (k + 1) / of_nat (length (non_reversing e)))) \<and>
       (direction e' = non_reversing e ! k \<longrightarrow>
          of_nat k \<le> rnd * of_nat (length (non_reversing e)) * (1 + 1 / 2 ^ 53) \<and>
          rnd * of_nat (length (non_reversing e)) < of_nat k + 1) \<and>
       (of_nat k \<le> rnd * of_nat (length (non_reversing e)) \<and>
        rnd * of_nat (length (non_reversing e)) * (1 + 1 / 2 ^ 53) < of_nat k + 1 \<longrightarrow>
          direction e' = non_reversing e ! k)"
    if k: "k < length (non_reversing e)" for k
  proof -
    from k have ds: "ds = non_reversing e"
      by (auto simp add: ds_def)
    from k have kd: "k < length ds"
      by (simp add: ds)
    have dist: "distinct ds"
      unfolding ds non_reversing_def using distinct_dirs by (rule distinct_filter)
    have "(direction e' = ds ! k) = (ds ! nat j = ds ! k)"
      by (simp add: d')
    also have "\<dots> = (nat j = k)"
      using dist nj kd by (simp add: nth_eq_iff_index_eq)
    also have "\<dots> = (j = int k)"
      using inb by auto
    finally have exact: "(direction e' = ds ! k) = (\<lfloor>round_double (rnd * of_nat (length ds))\<rfloor> = int k)"
      by (simp only: j_def)
    have pow: "(direction e' = ds ! k) =
        (of_nat k / of_nat (length ds) \<le> rnd \<and> rnd < of_nat (k + 1) / of_nat (length ds))"
      if n3: "length ds \<noteq> 3"
    proof -
      from kd len n3 have "length ds \<in> {1, 2, 4}"
        by (simp only: insert_iff empty_iff) linarith
      with r0 dbl have "round_double (rnd * of_nat (length ds)) = rnd * of_nat (length ds)"
        by (rule round_double_times_power_of_two)
      with exact have "(direction e' = ds ! k) = (\<lfloor>rnd * of_nat (length ds)\<rfloor> = int k)"
        by (simp only:)
      also have "\<dots> = (of_nat k / of_nat (length ds) \<le> rnd \<and> rnd < of_nat (k + 1) / of_nat (length ds))"
        using kd by (intro floor_eq_index) linarith
      finally show ?thesis .
    qed
    from random_index_near[OF r0 len kd] exact pow show ?thesis
      unfolding ds by blast
  qed
  from part1 part2 part3 show ?thesis
    by blast
qed

theorem chooseDirection_policy_witness:
  "tile_aligned (Enemy_new 0 64 704) \<and>
   (0::rat) \<le> 1 / 2 \<and> (1 / 2 :: rat) < 1 \<and> round_double (1 / 2) = 1 / 2 \<and>
   chooseDirection (1 / 2) (Enemy_new 0 64 704)
     = Inr ((Enemy_new 0 64 704)\<lparr>direction := \<lparr>dx = 0, dy = - 1\<rparr>\<rparr>) \<and>
   non_reversing (Enemy_new 0 64 704) = [\<lparr>dx = 1, dy = 0\<rparr>, \<lparr>dx = 0, dy = - 1\<rparr>] \<and>
   open_dir (Enemy_new 0 64 704) \<lparr>dx = 0, dy = - 1\<rparr> \<and>
   (of_nat 1 / of_nat 2 \<le> (1 / 2 :: rat) \<and> (1 / 2 :: rat) < of_nat (1 + 1) / of_nat 2) \<and>
   tile_aligned \<lparr>x = 384, y = 64, direction = \<lparr>dx = 0, dy = 0\<rparr>, spawnTimestamp = 0\<rparr> \<and>
   (0::rat) \<le> 6004799503160661 / 2 ^ 54 \<and> (6004799503160661 / 2 ^ 54 :: rat) < 1 \<and>
   round_double (6004799503160661 / 2 ^ 54) = 6004799503160661 / 2 ^ 54 \<and>
   chooseDirection (6004799503160661 / 2 ^ 54)
       \<lparr>x = 384, y = 64, direction = \<lparr>dx = 0, dy = 0\<rparr>, spawnTimestamp = 0\<rparr>
     = Inr \<lparr>x = 384, y = 64, direction = \<lparr>dx = - 1, dy = 0\<rparr>, spawnTimestamp = 0\<rparr> \<and>
   non_reversing \<lparr>x = 384, y = 64, direction = \<lparr>dx = 0, dy = 0\<rparr>, spawnTimestamp = 0\<rparr>
     = [\<lparr>dx = 1, dy = 0\<rparr>, \<lparr>dx = - 1, dy = 0\<rparr>, \<lparr>dx = 0, dy = 1\<rparr>] \<and>
   \<lfloor>round_double (6004799503160661 / 2 ^ 54 * of_nat 3)\<rfloor> = int 1 \<and>
   (of_nat 1 :: rat) \<le> 6004799503160661 / 2 ^ 54 * of_nat 3 * (1 + 1 / 2 ^ 53) \<and>
   (6004799503160661 / 2 ^ 54 * of_nat 3 :: rat) < of_nat 1 + 1"
proof -
  let ?e = "Enemy_new 0 64 704"
  let ?j = "\<lparr>x = 384, y = 64, direction = \<lparr>dx = 0, dy = 0\<rparr>, spawnTimestamp = 0\<rparr> :: enemy"
  from chooseDirection_policy[OF spawn_aligned _ _ half_is_double spawn_choice]
    chooseDirection_policy[OF junction_aligned _ _ below_a_third_is_double junction_choice]
    spawn_aligned spawn_choice half_is_double spawn_non_reversing
    junction_aligned junction_choice below_a_third_is_double junction_non_reversing
    below_a_third_times_three
  show ?thesis
    by simp
qed

text \<open>
  The uniform choice of C2 as the claim has it fails for three candidates. The pursuer
  stands still on cell (1,6), where right, left and down are open; the random number is
  the double below \<open>1 / 3\<close>, in the first of the three intervals; the double product with 3
  is 1, and \<open>chooseDirection\<close> assigns the second candidate.
\<close>

theorem chooseDirection_not_uniform_counterexample:
  "tile_aligned \<lparr>x = 384, y = 64, direction = \<lparr>dx = 0, dy = 0\<rparr>, spawnTimestamp = 0\<rparr> \<and>
   (0::rat) \<le> 6004799503160661 / 2 ^ 54 \<and> (6004799503160661 / 2 ^ 54 :: rat) < 1 \<and>
   round_double (6004799503160661 / 2 ^ 54) = 6004799503160661 / 2 ^ 54 \<and>
   non_reversing \<lparr>x = 384, y = 64, direction = \<lparr>dx = 0, dy = 0\<rparr>, spawnTimestamp = 0\<rparr>
     = [\<lparr>dx = 1, dy = 0\<rparr>, \<lparr>dx = - 1, dy = 0\<rparr>, \<lparr>dx = 0, dy = 1\<rparr>] \<and>
   (0::rat) / of_nat 3 \<le> 6004799503160661 / 2 ^ 54 \<and>
   (6004799503160661 / 2 ^ 54 :: rat) < of_nat 1 / of_nat 3 \<and>
   round_double (6004799503160661 / 2 ^ 54 * of_nat 3) = 1 \<and>
   chooseDirection (6004799503160661 / 2 ^ 54)
       \<lparr>x = 384, y = 64, direction = \<lparr>dx = 0, dy = 0\<rparr>, spawnTimestamp = 0\<rparr>
     = Inr \<lparr>x = 384, y = 64, direction = \<lparr>dx = - 1, dy = 0\<rparr>, spawnTimestamp = 0\<rparr>"
  using junction_aligned below_a_third_is_double junction_non_reversing
    below_a_third_times_three junction_choice
  by simp
section \<open>Stopping at a wall\<close>

lemma stuck_at_the_wall: "Player_update \<lparr>x = 64, y = 703, direction = \<lparr>dx = 0, dy = 1\<rparr>, nextDirection = \<lparr>dx = 0, dy = 1\<rparr>\<rparr>
     = \<lparr>x = 64, y = 703, direction = \<lparr>dx = 0, dy = 0\<rparr>, nextDirection = \<lparr>dx = 0, dy = 1\<rparr>\<rparr>"
    by code_simp
lemma pursuer_stops_off_grid: "Enemy_update 3000 0 \<lparr>x = 64, y = 65, direction = \<lparr>dx = 0, dy = - 1\<rparr>, spawnTimestamp = 0\<rparr>
     = Inr \<lparr>x = 64, y = 65, direction = \<lparr>dx = 0, dy = 0\<rparr>, spawnTimestamp = 0\<rparr>"
    by code_simp

lemma column_one_free: "list_all (\<lambda>r. \<not> isWall r 1) [1..11]"
  by code_simp

lemma descend:
  assumes "64 \<le> b" "b + 3 \<le> 703"
  shows "Player_update \<lparr>x = 64, y = b, direction = \<lparr>dx = 0, dy = 1\<rparr>, nextDirection = \<lparr>dx = 0, dy = 1\<rparr>\<rparr>
    = \<lparr>x = 64, y = b + 3, direction = \<lparr>dx = 0, dy = 1\<rparr>, nextDirection = \<lparr>dx = 0, dy = 1\<rparr>\<rparr>"
proof -
  let ?p = "\<lparr>x = 64, y = b, direction = \<lparr>dx = 0, dy = 1\<rparr>, nextDirection = \<lparr>dx = 0, dy = 1\<rparr>\<rparr> :: player"
  have t: "tryChangeDirection ?p = ?p"
    by (simp add: tryChangeDirection_def Let_def)
  from assms have "(b + 66) div 64 \<in> set [1..11]"
    by simp linarith
  with column_one_free have "\<not> isWall ((b + 66) div 64) 1"
    by (simp only: list_all_iff) blast
  then show ?thesis
    by (simp add: Player_update_def t step_down)
qed


lemma descend_many:
  assumes "64 \<le> b" "b + 3 * int n \<le> 703"
  shows "(Player_update ^^ n) \<lparr>x = 64, y = b, direction = \<lparr>dx = 0, dy = 1\<rparr>, nextDirection = \<lparr>dx = 0, dy = 1\<rparr>\<rparr>
    = \<lparr>x = 64, y = b + 3 * int n, direction = \<lparr>dx = 0, dy = 1\<rparr>, nextDirection = \<lparr>dx = 0, dy = 1\<rparr>\<rparr>"
  using assms
proof (induction n)
  case 0
  show ?case by simp
next
  case (Suc n)
  then have "64 \<le> b + 3 * int n" "b + 3 * int n + 3 \<le> 703"
    by simp_all
  from descend[OF this] Suc show ?case
    by (simp add: algebra_simps)
qed

lemma first_step_down:
  "Player_update ((Player_new (1 * TILE_SIZE) (1 * TILE_SIZE))\<lparr>nextDirection := \<lparr>dx = 0, dy = 1\<rparr>\<rparr>)
    = \<lparr>x = 64, y = 67, direction = \<lparr>dx = 0, dy = 1\<rparr>, nextDirection = \<lparr>dx = 0, dy = 1\<rparr>\<rparr>"
  by code_simp

lemma reachable_player_frames:
  "reachable_player p \<Longrightarrow> reachable_player ((Player_update ^^ n) p)"
  by (induction n) (simp_all add: reachable_player.frame)

lemma reachable_at_the_wall:
  "reachable_player \<lparr>x = 64, y = 703, direction = \<lparr>dx = 0, dy = 1\<rparr>, nextDirection = \<lparr>dx = 0, dy = 1\<rparr>\<rparr>"
proof -
  have k: "arrow_dirs ''ArrowDown'' = Some \<lparr>dx = 0, dy = 1\<rparr>"
    by (simp add: arrow_dirs_def)
  have "reachable_player (Player_update ((Player_new (1 * TILE_SIZE) (1 * TILE_SIZE))\<lparr>nextDirection := \<lparr>dx = 0, dy = 1\<rparr>\<rparr>))"
    by (intro reachable_player.frame reachable_player.key[OF _ k] reachable_player.start)
  then have "reachable_player ((Player_update ^^ 212) \<lparr>x = 64, y = 67, direction = \<lparr>dx = 0, dy = 1\<rparr>, nextDirection = \<lparr>dx = 0, dy = 1\<rparr>\<rparr>)"
    unfolding first_step_down by (rule reachable_player_frames)
  moreover have "(Player_update ^^ 212) \<lparr>x = 64, y = 67, direction = \<lparr>dx = 0, dy = 1\<rparr>, nextDirection = \<lparr>dx = 0, dy = 1\<rparr>\<rparr>
      = \<lparr>x = 64, y = 67 + 3 * int 212, direction = \<lparr>dx = 0, dy = 1\<rparr>, nextDirection = \<lparr>dx = 0, dy = 1\<rparr>\<rparr>"
    by (rule descend_many) simp_all
  ultimately show ?thesis
    by simp
qed

text \<open>
  C5: on a blocked axis the move is reverted, the direction component zeroed and the
  position snapped to a tile multiple. The snapping is not what the code does: the
  collision block of \<open>Player.update\<close> assigns the snapped coordinate, and the last two
  statements of \<open>update\<close> overwrite it with the coordinate before the snap. The player
  that runs down from its start is blocked at \<open>y = 703\<close>, where the snap would give 704,
  and stays at 703; \<open>Enemy.update\<close> has no snapping at all.
\<close>

theorem blocked_player_is_not_snapped:
  "reachable_player \<lparr>x = 64, y = 703, direction = \<lparr>dx = 0, dy = 1\<rparr>, nextDirection = \<lparr>dx = 0, dy = 1\<rparr>\<rparr> \<and>
   Player_update \<lparr>x = 64, y = 703, direction = \<lparr>dx = 0, dy = 1\<rparr>, nextDirection = \<lparr>dx = 0, dy = 1\<rparr>\<rparr>
     = \<lparr>x = 64, y = 703, direction = \<lparr>dx = 0, dy = 0\<rparr>, nextDirection = \<lparr>dx = 0, dy = 1\<rparr>\<rparr> \<and>
   (703 :: int) mod TILE_SIZE \<noteq> 0 \<and> snap_to_tile 703 = 704 \<and>
   Enemy_update 3000 0 \<lparr>x = 64, y = 65, direction = \<lparr>dx = 0, dy = - 1\<rparr>, spawnTimestamp = 0\<rparr>
     = Inr \<lparr>x = 64, y = 65, direction = \<lparr>dx = 0, dy = 0\<rparr>, spawnTimestamp = 0\<rparr>"
  using reachable_at_the_wall stuck_at_the_wall pursuer_stops_off_grid
  by (simp add: TILE_SIZE_def snap_to_tile_def)


section \<open>Changes of direction\<close>

lemma tryChangeDirection_turns_on_grid:
  "direction (tryChangeDirection p) \<noteq> direction p \<Longrightarrow> on_grid p"
  by (auto simp add: tryChangeDirection_def on_grid_def split: if_splits)

lemma snap_to_tile_aligned: "snap_to_tile a mod TILE_SIZE = 0"
  by (simp add: snap_to_tile_def)

lemma horizontal_stop_on_grid:
  assumes "player_inv p1" "direction (Player_after_horizontal p1) \<noteq> direction p1"
  shows "on_grid (Player_after_horizontal p1)"
proof -
  from assms(2) have "dx (direction p1) \<noteq> 0"
    by (auto simp add: Player_after_horizontal_def Player_horizontal_def Let_def split: if_splits)
  with assms(1) have "y p1 mod TILE_SIZE = 0"
    by (simp add: player_inv_def TILE_SIZE_def)
  with assms(2) show ?thesis
    by (auto simp add: Player_after_horizontal_def Player_horizontal_def Let_def on_grid_def
        snap_to_tile_aligned split: if_splits)
qed

lemma vertical_stop_on_grid:
  assumes "player_inv p1" "direction (Player_after_vertical p1) \<noteq> direction (Player_after_horizontal p1)"
  shows "on_grid (Player_after_vertical p1)"
proof -
  have keep: "dx (direction p1) = 0 \<Longrightarrow> Player_after_horizontal p1 = p1"
    by (simp add: Player_after_horizontal_def Player_horizontal_def)
  have "dy (direction (Player_after_horizontal p1)) \<noteq> 0"
    using assms(2)
    by (auto simp add: Player_after_vertical_def Player_vertical_def Let_def split: if_splits)
  then have dy: "dy (direction p1) \<noteq> 0"
    by (auto simp add: Player_after_horizontal_def Player_horizontal_def Let_def split: if_splits)
  from assms(1) have "unit_or_zero (direction p1)"
    by (simp add: player_inv_def)
  from unit_or_zero_cases[OF this] dy have "dx (direction p1) = 0"
    by auto
  then have same: "Player_after_horizontal p1 = p1"
    by (rule keep)
  from assms(1) dy have "x p1 mod TILE_SIZE = 0"
    by (simp add: player_inv_def TILE_SIZE_def)
  with assms(2) show ?thesis
    unfolding Player_after_vertical_def same
    by (auto simp add: Player_vertical_def Let_def on_grid_def snap_to_tile_aligned
        split: if_splits)
qed

lemma Player_update_direction:
  "direction (Player_update p) = direction (Player_after_vertical (tryChangeDirection p))"
  by (simp add: Player_update_def Player_move_def Player_after_vertical_def
      Player_after_horizontal_def Let_def split_beta)

lemma chooseDirection_off_grid:
  "\<not> tile_aligned e \<Longrightarrow> chooseDirection rnd e = Inr e"
  by (auto simp add: chooseDirection_def tile_aligned_def)

lemma chooseDirection_position:
  "chooseDirection rnd e = Inr e1 \<Longrightarrow> x e1 = x e \<and> y e1 = y e"
  by (auto simp add: chooseDirection_def split: if_splits option.splits)

lemma Enemy_update_direction:
  assumes "chooseDirection rnd e = Inr e1" "\<not> now - spawnTimestamp e < startDelay"
    "Enemy_update now rnd e = Inr e'"
  shows "direction e' =
    (if Enemy_wall_x e1 \<or> Enemy_wall_y e1 then \<lparr>dx = 0, dy = 0\<rparr> else direction e1)"
  using assms
  by (auto simp add: Enemy_update_def Enemy_horizontal_def Enemy_vertical_def Enemy_wall_x_def
      Enemy_wall_y_def Let_def split: if_splits)

subsection \<open>A pursuer runs into the wall of row 11\<close>

lemma row_eleven_free: "list_all (\<lambda>c. \<not> isWall 11 c) [1..6]"
  by code_simp

lemma tile_of_between:
  assumes "of_int (64 * lo) \<le> a" "a < of_int (64 * (hi + 1))"
  shows "tile_of a \<in> set [lo..hi]"
proof -
  from assms(1) have "of_int lo \<le> a / 64"
    by simp
  then have "lo \<le> tile_of a"
    by (simp add: tile_of_def TILE_SIZE_def le_floor_iff)
  moreover from assms(2) have "a / 64 < of_int (hi + 1)"
    by simp
  then have "\<lfloor>a / 64\<rfloor> < hi + 1"
    by (simp only: floor_less_iff)
  then have "tile_of a \<le> hi"
    by (simp add: tile_of_def TILE_SIZE_def)
  ultimately show ?thesis
    by simp
qed

lemma advance:
  assumes "64 \<le> a" "a + 6 / 5 \<le> 1922 / 5"
  shows "Enemy_update 3000 0 \<lparr>x = a, y = 704, direction = \<lparr>dx = 1, dy = 0\<rparr>, spawnTimestamp = 0\<rparr>
    = Inr \<lparr>x = a + 6 / 5, y = 704, direction = \<lparr>dx = 1, dy = 0\<rparr>, spawnTimestamp = 0\<rparr>"
proof -
  let ?e = "\<lparr>x = a, y = 704, direction = \<lparr>dx = 1, dy = 0\<rparr>, spawnTimestamp = 0\<rparr> :: enemy"
  have free: "\<not> isWall 11 c" if "c \<in> set [1..6]" for c
    using row_eleven_free that by (simp only: list_all_iff) blast
  have row: "tile_of (704 :: rat) = 11" "tile_of (767 :: rat) = 11"
    by code_simp+
  have "tile_of a \<in> set [1..5]"
    using assms by (intro tile_of_between) simp_all
  then have "tile_of a + 1 \<in> set [1..6]"
    by simp
  then have "\<not> isWall 11 (tile_of a + 1)"
    by (rule free)
  then have op: "open_dir ?e \<lparr>dx = 1, dy = 0\<rparr>"
    by (simp add: open_dir_def row)
  have first: "\<exists>cs. candidates ?e = \<lparr>dir = \<lparr>dx = 1, dy = 0\<rparr>, reverse = False\<rparr> # cs"
    using op by (simp add: candidates_eq non_reversing_def dirs_def reversal_def)
  have ch: "chooseDirection 0 ?e = Inr ?e"
  proof (cases "tile_aligned ?e")
    case True
    from first obtain cs where "candidates ?e = \<lparr>dir = \<lparr>dx = 1, dy = 0\<rparr>, reverse = False\<rparr> # cs"
      by blast
    then show ?thesis
      by (simp add: chooseDirection_aligned[OF True] round_double_small_int at_index_def)
  next
    case False
    then show ?thesis
      by (rule chooseDirection_off_grid)
  qed
  have "tile_of (a + 6 / 5 + 64 - 1) \<in> set [1..6]"
    using assms by (intro tile_of_between) simp_all
  then have "\<not> isWall 11 (tile_of (a + 6 / 5 + 64 - 1))"
    by (rule free)
  then show ?thesis
    by (simp add: Enemy_update_def ch startDelay_def Enemy_speed_def Enemy_horizontal_def
        Enemy_vertical_def sprite_size_def TILE_SIZE_def row Let_def)
qed

lemma advance_many:
  assumes "64 \<le> a" "a + 6 / 5 * of_nat n \<le> 1922 / 5"
    and "reachable_enemy \<lparr>x = a, y = 704, direction = \<lparr>dx = 1, dy = 0\<rparr>, spawnTimestamp = 0\<rparr>"
  shows "reachable_enemy
    \<lparr>x = a + 6 / 5 * of_nat n, y = 704, direction = \<lparr>dx = 1, dy = 0\<rparr>, spawnTimestamp = 0\<rparr>"
  using assms(2)
proof (induction n)
  case 0
  from assms(3) show ?case
    by simp
next
  case (Suc n)
  have s: "a + 6 / 5 * of_nat (Suc n) = a + 6 / 5 * of_nat n + 6 / 5"
    by (simp add: algebra_simps)
  from Suc.prems have up: "a + 6 / 5 * of_nat n + 6 / 5 \<le> 1922 / 5"
    unfolding s .
  then have le: "a + 6 / 5 * of_nat n \<le> 1922 / 5"
    by simp
  have low: "64 \<le> a + 6 / 5 * of_nat n"
    using assms(1) by simp
  have "reachable_enemy
      \<lparr>x = a + 6 / 5 * of_nat n + 6 / 5, y = 704, direction = \<lparr>dx = 1, dy = 0\<rparr>, spawnTimestamp = 0\<rparr>"
    using Suc.IH[OF le] _ _ _ advance[OF low up]
    by (rule reachable_enemy.frame) (simp_all add: round_double_small_int)
  then show ?case
    by (simp only: s)
qed

lemma first_step_right:
  "Enemy_update 3000 0 (Enemy_new 0 (of_int (1 * TILE_SIZE)) (of_int (11 * TILE_SIZE)))
     = Inr \<lparr>x = 326 / 5, y = 704, direction = \<lparr>dx = 1, dy = 0\<rparr>, spawnTimestamp = 0\<rparr>"
  by code_simp

lemma reachable_at_the_wall_of_row_eleven:
  "reachable_enemy \<lparr>x = 1922 / 5, y = 704, direction = \<lparr>dx = 1, dy = 0\<rparr>, spawnTimestamp = 0\<rparr>"
proof -
  have "reachable_enemy \<lparr>x = 326 / 5, y = 704, direction = \<lparr>dx = 1, dy = 0\<rparr>, spawnTimestamp = 0\<rparr>"
    using reachable_enemy.spawn[of 0] _ _ _ first_step_right
    by (rule reachable_enemy.frame) (simp_all add: round_double_small_int)
  then have "reachable_enemy
      \<lparr>x = 326 / 5 + 6 / 5 * of_nat 266, y = 704, direction = \<lparr>dx = 1, dy = 0\<rparr>, spawnTimestamp = 0\<rparr>"
    by (intro advance_many) simp_all
  then show ?thesis
    by simp
qed

lemma stopped_at_the_wall_of_row_eleven:
  "Enemy_update 3000 0 \<lparr>x = 1922 / 5, y = 704, direction = \<lparr>dx = 1, dy = 0\<rparr>, spawnTimestamp = 0\<rparr>
     = Inr \<lparr>x = 1922 / 5, y = 704, direction = \<lparr>dx = 0, dy = 0\<rparr>, spawnTimestamp = 0\<rparr>"
  by code_simp

lemma off_grid_at_the_wall_of_row_eleven:
  "\<not> tile_aligned \<lparr>x = 1922 / 5, y = 704, direction = \<lparr>dx = 1, dy = 0\<rparr>, spawnTimestamp = 0\<rparr>"
  by code_simp

lemma off_grid_after_the_stop:
  "\<not> tile_aligned \<lparr>x = 1922 / 5, y = 704, direction = \<lparr>dx = 0, dy = 0\<rparr>, spawnTimestamp = 0\<rparr>"
  by code_simp

text \<open>
  C4, as the code has it. The player of a session changes its direction only on the
  grid: in \<open>tryChangeDirection\<close>, and in a collision block, where the coordinate of the
  blocked axis has just been snapped and the other one is a tile multiple. A pursuer
  takes a new heading in \<open>chooseDirection\<close> only at a tile-aligned position; after that
  the collision blocks of \<open>Enemy.update\<close> set its direction to (0, 0) exactly when one of
  their wall tests finds a wall, aligned or not, and nothing else changes the direction.
\<close>

theorem direction_changes_on_grid_or_at_wall:
  "(reachable_player p \<longrightarrow>
      (direction (tryChangeDirection p) \<noteq> direction p \<longrightarrow> on_grid p) \<and>
      (direction (Player_after_horizontal (tryChangeDirection p)) \<noteq> direction (tryChangeDirection p) \<longrightarrow>
         on_grid (Player_after_horizontal (tryChangeDirection p))) \<and>
      (direction (Player_after_vertical (tryChangeDirection p))
          \<noteq> direction (Player_after_horizontal (tryChangeDirection p)) \<longrightarrow>
         on_grid (Player_after_vertical (tryChangeDirection p))) \<and>
      direction (Player_update p) = direction (Player_after_vertical (tryChangeDirection p))) \<and>
   (chooseDirection rnd e = Inr e1 \<longrightarrow>
      (direction e1 \<noteq> direction e \<longrightarrow> tile_aligned e) \<and> x e1 = x e \<and> y e1 = y e \<and>
      (\<not> now - spawnTimestamp e < startDelay \<and> Enemy_update now rnd e = Inr e' \<longrightarrow>
         direction e' =
           (if Enemy_wall_x e1 \<or> Enemy_wall_y e1 then \<lparr>dx = 0, dy = 0\<rparr> else direction e1))) \<and>
   (now - spawnTimestamp e < startDelay \<longrightarrow> Enemy_update now rnd e = Inr e)"
proof (intro conjI impI)
  assume "direction (tryChangeDirection p) \<noteq> direction p"
  then show "on_grid p"
    by (rule tryChangeDirection_turns_on_grid)
next
  assume "reachable_player p"
  then have inv: "player_inv (tryChangeDirection p)"
    by (intro inv_try reachable_player_inv)
  {
    assume "direction (Player_after_horizontal (tryChangeDirection p)) \<noteq> direction (tryChangeDirection p)"
    with inv show "on_grid (Player_after_horizontal (tryChangeDirection p))"
      by (rule horizontal_stop_on_grid)
  }
  {
    assume "direction (Player_after_vertical (tryChangeDirection p))
          \<noteq> direction (Player_after_horizontal (tryChangeDirection p))"
    with inv show "on_grid (Player_after_vertical (tryChangeDirection p))"
      by (rule vertical_stop_on_grid)
  }
next
  show "direction (Player_update p) = direction (Player_after_vertical (tryChangeDirection p))"
    by (rule Player_update_direction)
next
  assume c: "chooseDirection rnd e = Inr e1"
  {
    assume "direction e1 \<noteq> direction e"
    with c show "tile_aligned e"
      using chooseDirection_off_grid[of e rnd] by auto
  }
  from c show "x e1 = x e" and "y e1 = y e"
    by (simp_all add: chooseDirection_position)
  {
    assume a: "\<not> now - spawnTimestamp e < startDelay \<and> Enemy_update now rnd e = Inr e'"
    from c a[THEN conjunct1] a[THEN conjunct2] show "direction e' =
           (if Enemy_wall_x e1 \<or> Enemy_wall_y e1 then \<lparr>dx = 0, dy = 0\<rparr> else direction e1)"
      by (rule Enemy_update_direction)
  }
next
  assume "now - spawnTimestamp e < startDelay"
  then show "Enemy_update now rnd e = Inr e"
    by (simp add: Enemy_update_def)
qed

theorem direction_changes_on_grid_or_at_wall_witness:
  "reachable_player \<lparr>x = 64, y = 703, direction = \<lparr>dx = 0, dy = 1\<rparr>, nextDirection = \<lparr>dx = 0, dy = 1\<rparr>\<rparr> \<and>
   direction (Player_update \<lparr>x = 64, y = 703, direction = \<lparr>dx = 0, dy = 1\<rparr>, nextDirection = \<lparr>dx = 0, dy = 1\<rparr>\<rparr>)
     = \<lparr>dx = 0, dy = 0\<rparr> \<and>
   Player_after_vertical \<lparr>x = 64, y = 703, direction = \<lparr>dx = 0, dy = 1\<rparr>, nextDirection = \<lparr>dx = 0, dy = 1\<rparr>\<rparr>
     = \<lparr>x = 64, y = 704, direction = \<lparr>dx = 0, dy = 0\<rparr>, nextDirection = \<lparr>dx = 0, dy = 1\<rparr>\<rparr> \<and>
   on_grid (Player_after_vertical \<lparr>x = 64, y = 703, direction = \<lparr>dx = 0, dy = 1\<rparr>, nextDirection = \<lparr>dx = 0, dy = 1\<rparr>\<rparr>) \<and>
   reachable_player ((Player_new (1 * TILE_SIZE) (1 * TILE_SIZE))\<lparr>nextDirection := \<lparr>dx = 0, dy = 1\<rparr>\<rparr>) \<and>
   direction (tryChangeDirection ((Player_new (1 * TILE_SIZE) (1 * TILE_SIZE))\<lparr>nextDirection := \<lparr>dx = 0, dy = 1\<rparr>\<rparr>))
     = \<lparr>dx = 0, dy = 1\<rparr> \<and>
   on_grid ((Player_new (1 * TILE_SIZE) (1 * TILE_SIZE))\<lparr>nextDirection := \<lparr>dx = 0, dy = 1\<rparr>\<rparr>) \<and>
   chooseDirection 0 (Enemy_new 0 64 704) = Inr ((Enemy_new 0 64 704)\<lparr>direction := \<lparr>dx = 1, dy = 0\<rparr>\<rparr>) \<and>
   tile_aligned (Enemy_new 0 64 704) \<and>
   Enemy_update 2999 0 (Enemy_new 0 64 704) = Inr (Enemy_new 0 64 704) \<and>
   Enemy_wall_x \<lparr>x = 1922 / 5, y = 704, direction = \<lparr>dx = 1, dy = 0\<rparr>, spawnTimestamp = 0\<rparr> \<and>
   direction \<lparr>x = 1922 / 5, y = 704, direction = \<lparr>dx = 0, dy = 0\<rparr>, spawnTimestamp = 0\<rparr>
     = \<lparr>dx = 0, dy = 0\<rparr>"
proof -
  let ?wall = "\<lparr>x = 64, y = 703, direction = \<lparr>dx = 0, dy = 1\<rparr>, nextDirection = \<lparr>dx = 0, dy = 1\<rparr>\<rparr> :: player"
  let ?start = "(Player_new (1 * TILE_SIZE) (1 * TILE_SIZE))\<lparr>nextDirection := \<lparr>dx = 0, dy = 1\<rparr>\<rparr>"
  let ?spawn = "Enemy_new 0 64 704"
  let ?turned = "(Enemy_new 0 64 704)\<lparr>direction := \<lparr>dx = 1, dy = 0\<rparr>\<rparr>"
  let ?run = "\<lparr>x = 1922 / 5, y = 704, direction = \<lparr>dx = 1, dy = 0\<rparr>, spawnTimestamp = 0\<rparr> :: enemy"
  let ?stopped = "\<lparr>x = 1922 / 5, y = 704, direction = \<lparr>dx = 0, dy = 0\<rparr>, spawnTimestamp = 0\<rparr> :: enemy"
  have k: "arrow_dirs ''ArrowDown'' = Some \<lparr>dx = 0, dy = 1\<rparr>"
    by (simp add: arrow_dirs_def)
  have rs: "reachable_player ?start"
    by (intro reachable_player.key[OF _ k] reachable_player.start)
  have t: "tryChangeDirection ?wall = ?wall"
    by (simp add: tryChangeDirection_def TILE_SIZE_def)
  have h: "Player_after_horizontal ?wall = ?wall"
    by (simp add: Player_after_horizontal_def Player_horizontal_def)
  have v: "Player_after_vertical ?wall
      = \<lparr>x = 64, y = 704, direction = \<lparr>dx = 0, dy = 0\<rparr>, nextDirection = \<lparr>dx = 0, dy = 1\<rparr>\<rparr>"
    unfolding Player_after_vertical_def h by code_simp
  have ts: "direction (tryChangeDirection ?start) = \<lparr>dx = 0, dy = 1\<rparr>"
    by code_simp
  have ds: "direction ?start = \<lparr>dx = 0, dy = 0\<rparr>"
    by (simp add: Player_new_def)
  have c: "chooseDirection 0 ?spawn = Inr ?turned"
    by code_simp
  have cr: "chooseDirection 0 ?run = Inr ?run"
    by (rule chooseDirection_off_grid) (rule off_grid_at_the_wall_of_row_eleven)
  have w: "Enemy_wall_x ?run"
    by code_simp
  have d: "Enemy_update 2999 0 ?spawn = Inr ?spawn"
    using direction_changes_on_grid_or_at_wall[of ?start 0 ?spawn ?turned 2999 ?spawn]
    by (simp add: startDelay_def Enemy_new_def)
  from direction_changes_on_grid_or_at_wall[of ?wall 0 ?run ?run 3000 ?stopped]
    direction_changes_on_grid_or_at_wall[of ?start 0 ?spawn ?turned 2999 ?spawn]
    reachable_at_the_wall rs t h v ts ds c cr w d stopped_at_the_wall_of_row_eleven
  show ?thesis
    by (simp add: startDelay_def Enemy_new_def)
qed

text \<open>
  C4 as stated fails for the pursuer of a session. It leaves cell (11,1) to the right
  and, 268 frames later, the wall of column 7 blocks it at \<open>x = 384.4\<close>: its direction
  changes from (1, 0) to (0, 0) at a position that is not tile-aligned before, during or
  after the update.
\<close>

theorem direction_change_off_grid_counterexample:
  "reachable_enemy \<lparr>x = 1922 / 5, y = 704, direction = \<lparr>dx = 1, dy = 0\<rparr>, spawnTimestamp = 0\<rparr> \<and>
   \<not> tile_aligned \<lparr>x = 1922 / 5, y = 704, direction = \<lparr>dx = 1, dy = 0\<rparr>, spawnTimestamp = 0\<rparr> \<and>
   Enemy_update 3000 0 \<lparr>x = 1922 / 5, y = 704, direction = \<lparr>dx = 1, dy = 0\<rparr>, spawnTimestamp = 0\<rparr>
     = Inr \<lparr>x = 1922 / 5, y = 704, direction = \<lparr>dx = 0, dy = 0\<rparr>, spawnTimestamp = 0\<rparr> \<and>
   \<not> tile_aligned \<lparr>x = 1922 / 5, y = 704, direction = \<lparr>dx = 0, dy = 0\<rparr>, spawnTimestamp = 0\<rparr>"
  using reachable_at_the_wall_of_row_eleven off_grid_at_the_wall_of_row_eleven
    stopped_at_the_wall_of_row_eleven off_grid_after_the_stop
  by simp
section \<open>The keyboard\<close>

text \<open>
  C10: the keydown handler sets the player's queued direction, and nothing else, to the
  unit vector of the arrow key; any other key leaves the state unchanged. The last part
  is not what the code does. The handler tests \<open>dirs[key]\<close>, which also finds what \<open>dirs\<close>
  inherits from \<open>Object.prototype\<close>: for the keys \<open>toString\<close>, \<open>constructor\<close> or \<open>__proto__\<close>
  the value is truthy and the handler stores it, a function or the prototype object, in
  \<open>nextDirection\<close>. For the four arrow keys, and for a key such as \<open>a\<close>, the handler does
  what the claim says, and no key changes the current direction or the position.
\<close>

theorem keydown_stores_inherited_property:
  "dirs_lookup ''toString'' = Inherited \<and>
   onkeydown ''toString'' g = StoredNonVector g \<and>
   onkeydown ''constructor'' g = StoredNonVector g \<and>
   onkeydown ''__proto__'' g = StoredNonVector g \<and>
   onkeydown ''ArrowUp'' g = Handled (g\<lparr>player := (player g)\<lparr>nextDirection := \<lparr>dx = 0, dy = - 1\<rparr>\<rparr>\<rparr>) \<and>
   onkeydown ''ArrowDown'' g = Handled (g\<lparr>player := (player g)\<lparr>nextDirection := \<lparr>dx = 0, dy = 1\<rparr>\<rparr>\<rparr>) \<and>
   onkeydown ''ArrowLeft'' g = Handled (g\<lparr>player := (player g)\<lparr>nextDirection := \<lparr>dx = - 1, dy = 0\<rparr>\<rparr>\<rparr>) \<and>
   onkeydown ''ArrowRight'' g = Handled (g\<lparr>player := (player g)\<lparr>nextDirection := \<lparr>dx = 1, dy = 0\<rparr>\<rparr>\<rparr>) \<and>
   onkeydown ''a'' g = Handled g \<and>
   direction (player (state_after_key (onkeydown key g))) = direction (player g) \<and>
   x (player (state_after_key (onkeydown key g))) = x (player g) \<and>
   y (player (state_after_key (onkeydown key g))) = y (player g)"
  by (simp add: onkeydown_def dirs_lookup_def arrow_dirs_def Object_prototype_names_def
      state_after_key_def)

section \<open>The toys of a new session\<close>

lemma length_emptyCells: "length emptyCells = 84"
  by code_simp

lemma distinct_emptyCells: "distinct emptyCells"
  by code_simp

lemma in_emptyCells:
  "(r, c) \<in> set emptyCells \<longleftrightarrow> \<not> isWall r c \<and> \<not> (r = 1 \<and> c = 1)"
proof -
  have "(r, c) \<in> set emptyCells \<longleftrightarrow>
      r \<in> set [0..ROWS - 1] \<and> c \<in> set [0..COLS - 1] \<and> \<not> isWall r c \<and> \<not> (r = 1 \<and> c = 1)"
    by (auto simp add: emptyCells_def)
  moreover have "r \<in> set [0..ROWS - 1] \<and> c \<in> set [0..COLS - 1]" if "\<not> isWall r c"
    using that by (simp add: isWall_def ROWS_def COLS_def split: if_splits)
  ultimately show ?thesis
    by blast
qed

lemma set_emptyCells: "set emptyCells = {(r, c). \<not> isWall r c \<and> \<not> (r = 1 \<and> c = 1)}"
  using in_emptyCells by auto

lemma card_walkable: "card {(r, c). \<not> isWall r c \<and> \<not> (r = 1 \<and> c = 1)} = 84"
  using distinct_card[OF distinct_emptyCells] by (simp add: set_emptyCells length_emptyCells)

lemma shuffle_permutes:
  assumes "\<forall>i. 0 \<le> rnd i \<and> rnd i < 1" "k < length cells"
  shows "mset (shuffle rnd k cells) = mset cells"
  using assms(2)
proof (induction k arbitrary: cells)
  case 0
  show ?case by simp
next
  case (Suc k)
  define j where "j = nat \<lfloor>rnd (Suc k) * of_nat (Suc k + 1)\<rfloor>"
  have "rnd (Suc k) * of_nat (Suc k + 1) < of_nat (Suc k + 1)"
    using assms(1) by simp
  then have "\<lfloor>rnd (Suc k) * of_nat (Suc k + 1)\<rfloor> < int (Suc k + 1)"
    by (simp add: floor_less_iff)
  then have j: "j < length cells"
    using Suc.prems by (simp add: j_def)
  have sw: "mset (cells[Suc k := cells ! j, j := cells ! Suc k]) = mset cells"
    using j Suc.prems by (simp add: mset_swap)
  have "k < length (cells[Suc k := cells ! j, j := cells ! Suc k])"
    using Suc.prems by simp
  from Suc.IH[OF this] sw show ?case
    by (simp add: Let_def j_def)
qed

lemma map_nth_prefix: "n \<le> length xs \<Longrightarrow> map ((!) xs) [0..<n] = take n xs"
  by (rule nth_equalityI) simp_all

lemma make_toys_cells:
  "map (\<lambda>t. (row t, col t)) (make_toys cells) = take (min 10 (length cells)) cells"
  by (simp add: make_toys_def Let_def Toy_new_def comp_def map_nth_prefix)

lemma make_toys_fresh: "t \<in> set (make_toys cells) \<Longrightarrow> \<not> collected t"
  by (auto simp add: make_toys_def Let_def Toy_new_def)



section \<open>The two loops of a frame\<close>

lemma collected_so_far_nth:
  "k < length ts \<Longrightarrow> collected_so_far pr pc k ts ! k = ts ! k"
  by (simp add: collected_so_far_def nth_append)

lemma collected_so_far_Suc:
  assumes "k < length ts"
  shows "collected_so_far pr pc (Suc k) ts = (collected_so_far pr pc k ts)[k := collect_at pr pc (ts ! k)]"
proof -
  have "drop k ts = ts ! k # drop (Suc k) ts"
    using assms by (simp add: Cons_nth_drop_Suc)
  then have "(collected_so_far pr pc k ts)[k := collect_at pr pc (ts ! k)]
      = map (collect_at pr pc) (take k ts) @ collect_at pr pc (ts ! k) # drop (Suc k) ts"
    using assms by (simp add: collected_so_far_def list_update_append)
  also have "\<dots> = collected_so_far pr pc (Suc k) ts"
    using assms by (simp add: collected_so_far_def take_Suc_conv_app_nth)
  finally show ?thesis
    by simp
qed

lemma collected_so_far_length [simp]: "length (collected_so_far pr pc k ts) = length ts"
  by (simp add: collected_so_far_def)

lemma collect_at_idle: "\<not> picked_up pr pc t \<Longrightarrow> collect_at pr pc t = t"
  by (simp add: collect_at_def)

lemma collect_at_pick: "picked_up pr pc t \<Longrightarrow> collect_at pr pc t = t\<lparr>collected := True\<rparr>"
  by (simp add: collect_at_def)

lemma not_won_while_uncollected:
  assumes "k < length ts" "\<not> collected (ts ! k)"
  shows "\<not> won_so_far pr pc k ts"
proof -
  have "ts ! k \<in> set (collected_so_far pr pc k ts)"
    using assms(1) collected_so_far_nth[OF assms(1), of pr pc]
    by (metis collected_so_far_length nth_mem)
  with assms(2) show ?thesis
    by (auto simp add: won_so_far_def list_all_iff)
qed

lemma collect_prefix:
  assumes "k \<le> length (toys g)"
  shows "toys (fold (collectToy pr pc) [0..<k] g) = collected_so_far pr pc k (toys g) \<and>
     score (fold (collectToy pr pc) [0..<k] g)
       = score g + int (length (filter (picked_up pr pc) (take k (toys g)))) \<and>
     running (fold (collectToy pr pc) [0..<k] g)
       = (running g \<and> \<not> won_so_far pr pc k (toys g)) \<and>
     endGameCalls (fold (collectToy pr pc) [0..<k] g)
       = endGameCalls g @ (if won_so_far pr pc k (toys g) then [True] else []) \<and>
     player (fold (collectToy pr pc) [0..<k] g) = player g \<and>
     enemies (fold (collectToy pr pc) [0..<k] g) = enemies g \<and>
     timeLeft (fold (collectToy pr pc) [0..<k] g) = timeLeft g"
  using assms
proof (induction k)
  case 0
  show ?case
    by (simp add: collected_so_far_def won_so_far_def)
next
  case (Suc k)
  define gk where "gk = fold (collectToy pr pc) [0..<k] g"
  define ts where "ts = toys g"
  from Suc have k: "k < length ts"
    by (simp add: ts_def)
  from Suc have ih:
    "toys gk = collected_so_far pr pc k ts"
    "score gk = score g + int (length (filter (picked_up pr pc) (take k ts)))"
    "running gk = (running g \<and> \<not> won_so_far pr pc k ts)"
    "endGameCalls gk = endGameCalls g @ (if won_so_far pr pc k ts then [True] else [])"
    "player gk = player g" "enemies gk = enemies g" "timeLeft gk = timeLeft g"
    by (simp_all add: gk_def ts_def)
  have step: "fold (collectToy pr pc) [0..<Suc k] g = collectToy pr pc k gk"
    by (simp add: gk_def)
  have tk: "toys gk ! k = ts ! k"
    using k by (simp add: ih(1) collected_so_far_nth)
  have tS: "take (Suc k) ts = take k ts @ [ts ! k]"
    using k by (simp add: take_Suc_conv_app_nth)
  show ?case
  proof (cases "picked_up pr pc (ts ! k)")
    case True
    then have unc: "\<not> collected (ts ! k)"
      by (simp add: picked_up_def)
    have nw: "\<not> won_so_far pr pc k ts"
      using k unc by (rule not_won_while_uncollected)
    have new: "(toys gk)[k := (ts ! k)\<lparr>collected := True\<rparr>] = collected_so_far pr pc (Suc k) ts"
      using k True by (simp add: ih(1) collected_so_far_Suc collect_at_pick)
    have won: "won_so_far pr pc (Suc k) ts = list_all collected (collected_so_far pr pc (Suc k) ts)"
      using True by (auto simp add: won_so_far_def tS)
    have res: "collectToy pr pc k gk =
        (if list_all collected (collected_so_far pr pc (Suc k) ts)
         then endGame True (gk\<lparr>toys := collected_so_far pr pc (Suc k) ts, score := score gk + 1\<rparr>)
         else gk\<lparr>toys := collected_so_far pr pc (Suc k) ts, score := score gk + 1\<rparr>)"
      using True by (simp add: collectToy_def tk Let_def new picked_up_def)
    have cnt: "length (filter (picked_up pr pc) (take (Suc k) ts))
        = Suc (length (filter (picked_up pr pc) (take k ts)))"
      using True by (simp add: tS)
    show ?thesis
      unfolding step res ts_def[symmetric]
      using nw by (simp add: endGame_def ih won cnt)
  next
    case False
    have "(collected_so_far pr pc k ts)[k := collected_so_far pr pc k ts ! k]
        = collected_so_far pr pc k ts"
      by (rule list_update_id)
    then have same: "collected_so_far pr pc (Suc k) ts = collected_so_far pr pc k ts"
      using k False
      by (simp add: collected_so_far_Suc collect_at_idle collected_so_far_nth)
    have won: "won_so_far pr pc (Suc k) ts = won_so_far pr pc k ts"
      using False by (auto simp add: won_so_far_def same tS)
    from False have "collectToy pr pc k gk = gk"
      by (auto simp add: collectToy_def tk picked_up_def Let_def)
    moreover have "length (filter (picked_up pr pc) (take (Suc k) ts))
        = length (filter (picked_up pr pc) (take k ts))"
      using False by (simp add: tS)
    ultimately show ?thesis
      unfolding step ts_def[symmetric]
      by (simp add: ih same won)
  qed
qed


lemma updateEnemy_returns:
  assumes "updateEnemy clock ernd i g = Inr g1"
  obtains e where "Enemy_update (clock i) (ernd i) (enemies g ! i) = Inr e"
    and "g1 = (if checkCollision (player g) e
               then endGame False (g\<lparr>enemies := (enemies g)[i := e]\<rparr>)
               else g\<lparr>enemies := (enemies g)[i := e]\<rparr>)"
  using assms by (auto simp add: updateEnemy_def Let_def split: sum.splits)

lemma updateEnemy_keeps:
  "toys (state_of (updateEnemy clock ernd i g)) = toys g \<and>
   score (state_of (updateEnemy clock ernd i g)) = score g"
  by (simp add: updateEnemy_def state_of_def Let_def endGame_def split: sum.splits)

lemma forEach_enemy_keeps:
  "toys (state_of (forEach_enemy clock ernd indices g)) = toys g \<and>
   score (state_of (forEach_enemy clock ernd indices g)) = score g"
proof (induction indices arbitrary: g)
  case Nil
  show ?case by (simp add: state_of_def)
next
  case (Cons i rest)
  show ?case
  proof (cases "updateEnemy clock ernd i g")
    case (Inl a)
    with updateEnemy_keeps[of clock ernd i g] show ?thesis
      by simp
  next
    case (Inr g1)
    with updateEnemy_keeps[of clock ernd i g] Cons.IH[of g1] show ?thesis
      by (simp add: state_of_def)
  qed
qed

lemma forEach_enemy_returns:
  assumes "forEach_enemy clock ernd indices g = Inr g'" "distinct indices"
    "\<forall>i \<in> set indices. i < length (enemies g)"
  shows "player g' = player g \<and> toys g' = toys g \<and> score g' = score g \<and>
    timeLeft g' = timeLeft g \<and> length (enemies g') = length (enemies g) \<and>
    (\<forall>i. i \<notin> set indices \<longrightarrow> enemies g' ! i = enemies g ! i) \<and>
    (\<forall>i \<in> set indices. Enemy_update (clock i) (ernd i) (enemies g ! i) = Inr (enemies g' ! i)) \<and>
    endGameCalls g' = endGameCalls g @
       map (\<lambda>_. False) (filter (\<lambda>i. checkCollision (player g) (enemies g' ! i)) indices) \<and>
    running g' = (running g \<and> (\<forall>i \<in> set indices. \<not> checkCollision (player g) (enemies g' ! i)))"
  using assms
proof (induction indices arbitrary: g)
  case Nil
  then show ?case by simp
next
  case (Cons i rest)
  from Cons.prems(1) obtain g1 where u: "updateEnemy clock ernd i g = Inr g1"
    and r: "forEach_enemy clock ernd rest g1 = Inr g'"
    by (auto split: sum.splits)
  from u obtain e where e: "Enemy_update (clock i) (ernd i) (enemies g ! i) = Inr e"
    and g1: "g1 = (if checkCollision (player g) e
               then endGame False (g\<lparr>enemies := (enemies g)[i := e]\<rparr>)
               else g\<lparr>enemies := (enemies g)[i := e]\<rparr>)"
    by (rule updateEnemy_returns)
  from Cons.prems have i: "i < length (enemies g)" "i \<notin> set rest" "distinct rest"
    by simp_all
  have f1: "player g1 = player g" "toys g1 = toys g" "score g1 = score g" "timeLeft g1 = timeLeft g"
    "enemies g1 = (enemies g)[i := e]"
    "endGameCalls g1 = endGameCalls g @ (if checkCollision (player g) e then [False] else [])"
    "running g1 = (running g \<and> \<not> checkCollision (player g) e)"
    by (simp_all add: g1 endGame_def)
  have "\<forall>i \<in> set rest. i < length (enemies g1)"
    using Cons.prems(3) by (simp add: f1)
  from Cons.IH[OF r i(3) this]
  have ih: "player g' = player g1" "toys g' = toys g1" "score g' = score g1"
    "timeLeft g' = timeLeft g1" "length (enemies g') = length (enemies g1)"
    "\<forall>j. j \<notin> set rest \<longrightarrow> enemies g' ! j = enemies g1 ! j"
    "\<forall>j \<in> set rest. Enemy_update (clock j) (ernd j) (enemies g1 ! j) = Inr (enemies g' ! j)"
    "endGameCalls g' = endGameCalls g1 @
       map (\<lambda>_. False) (filter (\<lambda>j. checkCollision (player g1) (enemies g' ! j)) rest)"
    "running g' = (running g1 \<and> (\<forall>j \<in> set rest. \<not> checkCollision (player g1) (enemies g' ! j)))"
    by simp_all
  have ei: "enemies g' ! i = e"
    using ih(6) i by (simp add: f1)
  have others: "\<forall>j \<in> set rest. enemies g1 ! j = enemies g ! j"
  proof
    fix j assume "j \<in> set rest"
    with i(2) have "i \<noteq> j"
      by auto
    then show "enemies g1 ! j = enemies g ! j"
      by (simp add: f1)
  qed
  show ?case
    using ih i ei others e by (auto simp add: f1)
qed

section \<open>A frame of the session\<close>

lemma Game_update_toys_fields:
  fixes g
  defines "pr \<equiv> y (Player_update (player g)) div TILE_SIZE"
    and "pc \<equiv> x (Player_update (player g)) div TILE_SIZE"
  shows "toys (Game_update_toys g) = map (collect_at pr pc) (toys g)"
    and "score (Game_update_toys g) = score g + int (length (filter (picked_up pr pc) (toys g)))"
    and "running (Game_update_toys g) = (running g \<and> \<not> won_so_far pr pc (length (toys g)) (toys g))"
    and "endGameCalls (Game_update_toys g)
       = endGameCalls g @ (if won_so_far pr pc (length (toys g)) (toys g) then [True] else [])"
    and "player (Game_update_toys g) = Player_update (player g)"
    and "enemies (Game_update_toys g) = enemies g"
    and "timeLeft (Game_update_toys g) = timeLeft g"
  using collect_prefix[of "length (toys g)" "g\<lparr>player := Player_update (player g)\<rparr>" pr pc]
  by (simp_all add: Game_update_toys_def Let_def pr_def pc_def collected_so_far_def)

lemma won_so_far_all:
  "won_so_far pr pc (length ts) ts \<longleftrightarrow>
     (\<exists>t \<in> set ts. \<not> collected t \<and> row t = pr \<and> col t = pc) \<and>
     (\<forall>t \<in> set ts. collected t \<or> row t = pr \<and> col t = pc)"
  by (auto simp add: won_so_far_def collected_so_far_def list_all_iff picked_up_def collect_at_def)

lemma won_is_last_toy_collected:
  "won_so_far (y (Player_update (player g)) div TILE_SIZE) (x (Player_update (player g)) div TILE_SIZE)
     (length (toys g)) (toys g) = last_toy_collected g"
  by (simp add: won_so_far_all last_toy_collected_def Let_def)


lemma filter_indices:
  "map ((!) xs) (filter (\<lambda>i. P (xs ! i)) [0..<length xs]) = filter P xs"
proof -
  have "filter P (map ((!) xs) [0..<length xs]) = map ((!) xs) (filter (P \<circ> (!) xs) [0..<length xs])"
    by (rule filter_map)
  then show ?thesis
    by (simp add: map_nth comp_def)
qed

lemma count_indices:
  "length (filter (\<lambda>i. P (xs ! i)) [0..<length xs]) = length (filter P xs)"
  using arg_cong[OF filter_indices[of xs P], of length] by simp

text \<open>
  C3: a frame takes a running session out of Running exactly on these events. When a toy
  is picked up and every toy is then collected, \<open>endGame(true)\<close> is called; for every
  pursuer whose box overlaps the player's after its update, \<open>endGame(false)\<close> is called;
  there is no other call, and the session is still running after the frame if and only if
  there was none. The timer callback of a running session decrements the countdown and
  calls \<open>endGame(false)\<close> when it reaches zero. Every call of \<open>endGame\<close> clears the running
  flag.
\<close>

theorem game_over_on_events:
  "(Game_update clock ernd g = Inr g' \<longrightarrow>
      endGameCalls g' = endGameCalls g @ (if last_toy_collected g then [True] else []) @
         map (\<lambda>_. False) (filter (checkCollision (player g')) (enemies g')) \<and>
      (running g \<longrightarrow>
         (\<not> running g') = (last_toy_collected g \<or> (\<exists>e \<in> set (enemies g'). checkCollision (player g') e)))) \<and>
   (running g \<longrightarrow>
      timerTick g = (if timeLeft g - 1 \<le> 0 then endGame False (g\<lparr>timeLeft := timeLeft g - 1\<rparr>)
                     else g\<lparr>timeLeft := timeLeft g - 1\<rparr>)) \<and>
   \<not> running (endGame win g) \<and> endGameCalls (endGame win g) = endGameCalls g @ [win]"
proof (intro conjI impI)
  assume u: "Game_update clock ernd g = Inr g'"
  define g2 where "g2 = Game_update_toys g"
  from u have loop: "forEach_enemy clock ernd [0..<length (enemies g2)] g2 = Inr g'"
    by (simp add: Game_update_def g2_def Let_def)
  have f2: "running g2 = (running g \<and> \<not> last_toy_collected g)"
    "endGameCalls g2 = endGameCalls g @ (if last_toy_collected g then [True] else [])"
    by (simp_all add: g2_def Game_update_toys_fields won_is_last_toy_collected)
  from forEach_enemy_returns[OF loop]
  have f: "player g' = player g2" "length (enemies g') = length (enemies g2)"
    "endGameCalls g' = endGameCalls g2 @
       map (\<lambda>_. False) (filter (\<lambda>i. checkCollision (player g2) (enemies g' ! i)) [0..<length (enemies g2)])"
    "running g' = (running g2 \<and> (\<forall>i \<in> set [0..<length (enemies g2)]. \<not> checkCollision (player g2) (enemies g' ! i)))"
    by simp_all
  have "map (\<lambda>_. False) (filter (\<lambda>i. checkCollision (player g') (enemies g' ! i)) [0..<length (enemies g')])
      = map (\<lambda>_. False) (filter (checkCollision (player g')) (enemies g'))"
    by (rule nth_equalityI) (simp_all add: count_indices)
  then show "endGameCalls g' = endGameCalls g @ (if last_toy_collected g then [True] else []) @
         map (\<lambda>_. False) (filter (checkCollision (player g')) (enemies g'))"
    by (simp add: f f2)
  have "(\<exists>e \<in> set (enemies g'). checkCollision (player g') e)
      = (\<exists>i < length (enemies g'). checkCollision (player g') (enemies g' ! i))"
    by (metis in_set_conv_nth)
  then have "(\<exists>e \<in> set (enemies g'). checkCollision (player g') e)
      = (\<exists>i \<in> set [0..<length (enemies g2)]. checkCollision (player g2) (enemies g' ! i))"
    by (simp add: f Bex_def)
  then show "(\<not> running g') = (last_toy_collected g \<or> (\<exists>e \<in> set (enemies g'). checkCollision (player g') e))"
    if "running g"
    using that by (auto simp add: f(4) f2(1))
next
  assume "running g"
  then show "timerTick g = (if timeLeft g - 1 \<le> 0 then endGame False (g\<lparr>timeLeft := timeLeft g - 1\<rparr>)
                     else g\<lparr>timeLeft := timeLeft g - 1\<rparr>)"
    by (simp add: timerTick_def Let_def)
next
  show "\<not> running (endGame win g)"
    by (simp add: endGame_def)
  show "endGameCalls (endGame win g) = endGameCalls g @ [win]"
    by (simp add: endGame_def)
qed


theorem game_over_on_events_witness:
  "running \<lparr>player = Player_new 64 64, enemies = [Enemy_new 0 64 704],
      toys = [Toy_new 1 1 ''teddy''], score = 0, timeLeft = 1, running = True, endGameCalls = []\<rparr> \<and>
   Game_update (\<lambda>_. 0) (\<lambda>_. 0)
     \<lparr>player = Player_new 64 64, enemies = [Enemy_new 0 64 704],
      toys = [Toy_new 1 1 ''teddy''], score = 0, timeLeft = 1, running = True, endGameCalls = []\<rparr>
   = Inr \<lparr>player = Player_new 64 64, enemies = [Enemy_new 0 64 704],
      toys = [\<lparr>row = 1, col = 1, collected = True, type = ''teddy''\<rparr>], score = 1, timeLeft = 1,
      running = False, endGameCalls = [True]\<rparr> \<and>
   last_toy_collected \<lparr>player = Player_new 64 64, enemies = [Enemy_new 0 64 704],
      toys = [Toy_new 1 1 ''teddy''], score = 0, timeLeft = 1, running = True, endGameCalls = []\<rparr> \<and>
   timerTick \<lparr>player = Player_new 64 64, enemies = [Enemy_new 0 64 704],
      toys = [Toy_new 1 1 ''teddy''], score = 0, timeLeft = 1, running = True, endGameCalls = []\<rparr>
   = \<lparr>player = Player_new 64 64, enemies = [Enemy_new 0 64 704],
      toys = [Toy_new 1 1 ''teddy''], score = 0, timeLeft = 0, running = False, endGameCalls = [False]\<rparr>"
proof -
  let ?g = "\<lparr>player = Player_new 64 64, enemies = [Enemy_new 0 64 704],
      toys = [Toy_new 1 1 ''teddy''], score = 0, timeLeft = 1, running = True, endGameCalls = []\<rparr>"
  let ?won = "\<lparr>player = Player_new 64 64, enemies = [Enemy_new 0 64 704],
      toys = [\<lparr>row = 1, col = 1, collected = True, type = ''teddy''\<rparr>], score = 1, timeLeft = 1,
      running = False, endGameCalls = [True]\<rparr>"
  have u: "Game_update (\<lambda>_. 0) (\<lambda>_. 0) ?g = Inr ?won"
    by code_simp
  have r: "running ?g"
    by simp
  from game_over_on_events[of "\<lambda>_. 0" "\<lambda>_. 0" ?g ?won False] u r show ?thesis
    by (simp add: endGame_def split: if_splits)
qed


lemma count_after_collect:
  "length (filter collected (map (collect_at pr pc) ts))
     = length (filter collected ts) + length (filter (picked_up pr pc) ts)"
  by (induction ts) (auto simp add: collect_at_def picked_up_def)

lemma count_after_collect_comp:
  "length (filter (collected \<circ> collect_at pr pc) ts)
     = length (filter collected ts) + length (filter (picked_up pr pc) ts)"
  using count_after_collect[of pr pc ts] by simp

lemma Game_update_state:
  fixes g
  defines "pr \<equiv> y (Player_update (player g)) div TILE_SIZE"
    and "pc \<equiv> x (Player_update (player g)) div TILE_SIZE"
  shows "toys (state_of (Game_update clock ernd g)) = map (collect_at pr pc) (toys g)"
    and "score (state_of (Game_update clock ernd g))
       = score g + int (length (filter (picked_up pr pc) (toys g)))"
  using forEach_enemy_keeps[of clock ernd "[0..<length (enemies (Game_update_toys g))]" "Game_update_toys g"]
  by (simp_all add: Game_update_def Let_def Game_update_toys_fields pr_def pc_def)

lemma score_inv_update: "score_inv g \<Longrightarrow> score_inv (state_of (Game_update clock ernd g))"
  by (simp add: score_inv_def Game_update_state count_after_collect_comp)

lemma score_inv_loop: "score_inv g \<Longrightarrow> score_inv (state_of (loop clock ernd g))"
  by (simp add: loop_def score_inv_update) (simp add: state_of_def)

lemma score_inv_tick: "score_inv g \<Longrightarrow> score_inv (timerTick g)"
  by (simp add: score_inv_def timerTick_def Let_def endGame_def)

lemma state_after_key_cases:
  "state_after_key (onkeydown k g) = g \<or>
   (\<exists>d. state_after_key (onkeydown k g) = g\<lparr>player := (player g)\<lparr>nextDirection := d\<rparr>\<rparr>)"
  by (cases "dirs_lookup k") (auto simp add: state_after_key_def onkeydown_def)

lemma score_inv_key: "score_inv g \<Longrightarrow> score_inv (state_after_key (onkeydown k g))"
  using state_after_key_cases[of k g] by (auto simp add: score_inv_def)

lemma make_toys_none_collected: "filter collected (make_toys cells) = []"
  by (simp add: filter_empty_conv make_toys_fresh)

lemma score_inv_init: "score_inv (Game_init_state now rnd)"
  by (simp add: score_inv_def Game_init_state_def make_toys_none_collected)

lemma reachable_game_score: "reachable_game g \<Longrightarrow> score_inv g"
proof (induction rule: reachable_game.induct)
  case (init rnd now clock ernd)
  show ?case
    unfolding Game_init_def using score_inv_init by (rule score_inv_loop)
next
  case (frame g clock ernd)
  then show ?case by (simp add: score_inv_loop)
next
  case (tick g)
  then show ?case by (simp add: score_inv_tick)
next
  case (key g k)
  then show ?case by (simp add: score_inv_key)
qed

text \<open>
  C7: in every reachable state of a session the score is the number of collected toys. A
  frame keeps every collected flag that is set and adds to the score the number of toys
  that it turns from not collected to collected; the timer and the keyboard change
  neither the toys nor the score.
\<close>

theorem score_counts_collected_toys:
  "(reachable_game g \<longrightarrow> score g = int (length (filter collected (toys g)))) \<and>
   length (toys (state_of (Game_update clock ernd g))) = length (toys g) \<and>
   (\<forall>i < length (toys g).
      collected (toys g ! i) \<longrightarrow> collected (toys (state_of (Game_update clock ernd g)) ! i)) \<and>
   score (state_of (Game_update clock ernd g)) = score g +
      int (length (filter (\<lambda>i. \<not> collected (toys g ! i) \<and>
                                  collected (toys (state_of (Game_update clock ernd g)) ! i))
                    [0..<length (toys g)])) \<and>
   toys (timerTick g) = toys g \<and> score (timerTick g) = score g \<and>
   toys (state_after_key (onkeydown key g)) = toys g \<and>
   score (state_after_key (onkeydown key g)) = score g"
proof -
  define pr where "pr = y (Player_update (player g)) div TILE_SIZE"
  define pc where "pc = x (Player_update (player g)) div TILE_SIZE"
  have t: "toys (state_of (Game_update clock ernd g)) = map (collect_at pr pc) (toys g)"
    and s: "score (state_of (Game_update clock ernd g))
       = score g + int (length (filter (picked_up pr pc) (toys g)))"
    by (simp_all add: Game_update_state pr_def pc_def)
  have newly: "(\<not> collected t \<and> collected (collect_at pr pc t)) = picked_up pr pc t" for t
    by (auto simp add: collect_at_def picked_up_def)
  have "filter (\<lambda>i. \<not> collected (toys g ! i) \<and> collected (map (collect_at pr pc) (toys g) ! i))
          [0..<length (toys g)]
      = filter (\<lambda>i. picked_up pr pc (toys g ! i)) [0..<length (toys g)]"
    by (rule filter_cong) (simp_all add: newly)
  then have cnt: "length (filter (\<lambda>i. \<not> collected (toys g ! i) \<and>
        collected (map (collect_at pr pc) (toys g) ! i)) [0..<length (toys g)])
      = length (filter (picked_up pr pc) (toys g))"
    by (simp add: count_indices)
  have mono: "\<forall>i < length (toys g). collected (toys g ! i) \<longrightarrow>
      collected (map (collect_at pr pc) (toys g) ! i)"
    by (simp add: collect_at_def)
  have other: "toys (timerTick g) = toys g \<and> score (timerTick g) = score g \<and>
      toys (state_after_key (onkeydown key g)) = toys g \<and>
      score (state_after_key (onkeydown key g)) = score g"
    using state_after_key_cases[of key g]
    by (auto simp add: timerTick_def Let_def endGame_def)
  from reachable_game_score[of g] mono cnt other show ?thesis
    unfolding t s by (simp add: score_inv_def)
qed


theorem score_counts_collected_toys_witness:
  "reachable_game (state_of (Game_init 0 (\<lambda>_. 0) (\<lambda>_. 0) (\<lambda>_. 0))) \<and>
   score (state_of (Game_init 0 (\<lambda>_. 0) (\<lambda>_. 0) (\<lambda>_. 0)))
     = int (length (filter collected (toys (state_of (Game_init 0 (\<lambda>_. 0) (\<lambda>_. 0) (\<lambda>_. 0)))))) \<and>
   (0 :: nat) < length [\<lparr>row = 5, col = 5, collected = True, type = ''ball''\<rparr>, Toy_new 1 1 ''teddy''] \<and>
   collected (toys (state_of (Game_update (\<lambda>_. 0) (\<lambda>_. 0)
       \<lparr>player = Player_new 64 64, enemies = [Enemy_new 0 64 704],
        toys = [\<lparr>row = 5, col = 5, collected = True, type = ''ball''\<rparr>, Toy_new 1 1 ''teddy''],
        score = 1, timeLeft = 60, running = True, endGameCalls = []\<rparr>)) ! 0) \<and>
   score (state_of (Game_update (\<lambda>_. 0) (\<lambda>_. 0)
       \<lparr>player = Player_new 64 64, enemies = [Enemy_new 0 64 704],
        toys = [\<lparr>row = 5, col = 5, collected = True, type = ''ball''\<rparr>, Toy_new 1 1 ''teddy''],
        score = 1, timeLeft = 60, running = True, endGameCalls = []\<rparr>)) = 2"
proof -
  let ?g = "\<lparr>player = Player_new 64 64, enemies = [Enemy_new 0 64 704],
        toys = [\<lparr>row = 5, col = 5, collected = True, type = ''ball''\<rparr>, Toy_new 1 1 ''teddy''],
        score = 1, timeLeft = 60, running = True, endGameCalls = []\<rparr>"
  have r: "reachable_game (state_of (Game_init 0 (\<lambda>_. 0) (\<lambda>_. 0) (\<lambda>_. 0)))"
    by (rule reachable_game.init) simp
  have u: "state_of (Game_update (\<lambda>_. 0) (\<lambda>_. 0) ?g)
      = \<lparr>player = Player_new 64 64, enemies = [Enemy_new 0 64 704],
        toys = [\<lparr>row = 5, col = 5, collected = True, type = ''ball''\<rparr>,
                \<lparr>row = 1, col = 1, collected = True, type = ''teddy''\<rparr>],
        score = 2, timeLeft = 60, running = False, endGameCalls = [True]\<rparr>"
    by code_simp
  from score_counts_collected_toys[of "state_of (Game_init 0 (\<lambda>_. 0) (\<lambda>_. 0) (\<lambda>_. 0))" "\<lambda>_. 0" "\<lambda>_. 0" "''a''"]
    score_counts_collected_toys[of ?g "\<lambda>_. 0" "\<lambda>_. 0" "''a''"] r
  show ?thesis
    unfolding u by simp
qed

lemma first_frame_keeps_toys:
  assumes "\<forall>t \<in> set (toys g). \<not> (row t = 1 \<and> col t = 1)"
    and "player g = Player_new (1 * TILE_SIZE) (1 * TILE_SIZE)"
  shows "toys (state_of (loop clock ernd g)) = toys g"
proof -
  have p: "Player_update (player g) = Player_new (1 * TILE_SIZE) (1 * TILE_SIZE)"
    using isWall_1_1
    by (simp add: assms(2) Player_update_def tryChangeDirection_def Player_new_def TILE_SIZE_def
        step_still)
  have "map (collect_at 1 1) (toys g) = toys g"
    using assms(1) by (simp add: map_idI collect_at_def picked_up_def)
  then have "toys (state_of (Game_update clock ernd g)) = toys g"
    by (simp add: Game_update_state p) (simp add: Player_new_def TILE_SIZE_def)
  then show ?thesis
    by (simp add: loop_def state_of_def)
qed

text \<open>
  C9: \<open>Game.init\<close> creates min(10, number of walkable cells other than (1,1)) toys, which
  is 10; the toys lie on distinct walkable cells, none on the start cell (1,1), and none is
  collected.
\<close>

theorem Game_init_places_ten_toys:
  assumes "\<forall>i. 0 \<le> rnd i \<and> rnd i < 1"
  shows "length (toys (state_of (Game_init now rnd clock ernd)))
       = min 10 (card {(r, c). \<not> isWall r c \<and> \<not> (r = 1 \<and> c = 1)}) \<and>
     distinct (map (\<lambda>t. (row t, col t)) (toys (state_of (Game_init now rnd clock ernd)))) \<and>
     (\<forall>t \<in> set (toys (state_of (Game_init now rnd clock ernd))).
        \<not> isWall (row t) (col t) \<and> \<not> (row t = 1 \<and> col t = 1) \<and> \<not> collected t)"
proof -
  define cells where "cells = shuffle rnd (length emptyCells - 1) emptyCells"
  have "mset cells = mset emptyCells"
    unfolding cells_def using assms by (rule shuffle_permutes) (simp add: length_emptyCells)
  then have perm: "set cells = set emptyCells" "distinct cells" "length cells = length emptyCells"
    using distinct_emptyCells
    by (metis mset_eq_setD, metis mset_eq_imp_distinct_iff, metis mset_eq_length)
  have places: "map (\<lambda>t. (row t, col t)) (make_toys cells) = take 10 cells"
    by (simp add: make_toys_cells perm(3) length_emptyCells)
  then have inside: "(row t, col t) \<in> set emptyCells" if "t \<in> set (make_toys cells)" for t
  proof -
    from that have "(row t, col t) \<in> set (map (\<lambda>t. (row t, col t)) (make_toys cells))"
      by (simp add: image_iff) blast
    then show ?thesis
      unfolding places using perm(1) by (auto dest: in_set_takeD)
  qed
  have off_start: "\<forall>t \<in> set (make_toys cells). \<not> (row t = 1 \<and> col t = 1)"
    using inside by (auto simp add: in_emptyCells)
  have "toys (state_of (Game_init now rnd clock ernd)) = toys (Game_init_state now rnd)"
    unfolding Game_init_def
    by (rule first_frame_keeps_toys) (use off_start in \<open>simp_all add: Game_init_state_def cells_def\<close>)
  then have t: "toys (state_of (Game_init now rnd clock ernd)) = make_toys cells"
    by (simp add: Game_init_state_def cells_def)
  have "length (make_toys cells) = 10"
    using arg_cong[OF places, of length] by (simp add: perm(3) length_emptyCells)
  moreover have "distinct (map (\<lambda>t. (row t, col t)) (make_toys cells))"
    unfolding places using perm(2) by (rule distinct_take)
  moreover have "\<forall>t \<in> set (make_toys cells).
        \<not> isWall (row t) (col t) \<and> \<not> (row t = 1 \<and> col t = 1) \<and> \<not> collected t"
    using inside make_toys_fresh by (auto simp add: in_emptyCells)
  ultimately show ?thesis
    unfolding t using card_walkable by simp
qed

theorem Game_init_places_ten_toys_witness:
  "(\<forall>i. (0 :: rat) \<le> (\<lambda>_. 0) i \<and> (\<lambda>_. 0 :: rat) i < 1) \<and>
   length (toys (state_of (Game_init 0 (\<lambda>_. 0) (\<lambda>_. 0) (\<lambda>_. 0)))) = 10"
  using Game_init_places_ten_toys[of "\<lambda>_. 0" 0 "\<lambda>_. 0" "\<lambda>_. 0"] card_walkable by simp

end
